theory Spec2Isabelle
  imports Main "HOL-Library.Word" "HOL-Library.Sublist"
begin

unbundle bit_operations_syntax

section \<open>The scheduler of src/pkg/runtime/proc.c\<close>

text \<open>
  A shallow embedding of the goroutine scheduler.  One thread's run through a
  function of proc.c is a function from the state before to the state after;
  the state holds the fields of \<open>runtime\<cdot>sched\<close>, the file's globals, the \<open>G\<close>
  and \<open>M\<close> structures (a store indexed by address, \<open>None\<close> for \<open>nil\<close>) and the
  calls made to the primitives of the platform layer (locks, notes, thread
  creation), in order.  A \<open>runtime\<cdot>throw\<close> and \<open>runtime\<cdot>exit\<close> end the run and are
  values of the result.  Other threads do not run in between: an atomic
  compare-and-swap finds the word it has just read.
\<close>

subsection \<open>Machine types\<close>

type_synonym int32 = "32 word"
type_synonym uint32 = "32 word"
type_synonym uintptr = "64 word"
type_synonym ptr = "nat option"

text \<open>
  \<open>int32\<close> values are compared as two's complement numbers (\<open><s\<close>, \<open>\<le>s\<close>),
  \<open>uint32\<close> values as unsigned ones; addition wraps in both.
\<close>

subsection \<open>The atomic scheduling word\<close>

definition mcpuWidth :: nat where "mcpuWidth = 15"
definition mcpuMask :: uint32 where "mcpuMask = push_bit mcpuWidth 1 - 1"
definition mcpuShift :: nat where "mcpuShift = 0"
definition mcpumaxShift :: nat where "mcpumaxShift = mcpuShift + mcpuWidth"
definition waitstopShift :: nat where "waitstopShift = mcpumaxShift + mcpuWidth"
definition gwaitingShift :: nat where "gwaitingShift = waitstopShift + 1"
definition maxgomaxprocs :: "32 word" where "maxgomaxprocs = mcpuMask - 10"

definition atomic_mcpu :: "uint32 \<Rightarrow> uint32" where
  "atomic_mcpu v = drop_bit mcpuShift v AND mcpuMask"

definition atomic_mcpumax :: "uint32 \<Rightarrow> uint32" where
  "atomic_mcpumax v = drop_bit mcpumaxShift v AND mcpuMask"

definition atomic_waitstop :: "uint32 \<Rightarrow> uint32" where
  "atomic_waitstop v = drop_bit waitstopShift v AND 1"

definition atomic_gwaiting :: "uint32 \<Rightarrow> uint32" where
  "atomic_gwaiting v = drop_bit gwaitingShift v AND 1"

lemmas shift_defs = mcpuWidth_def mcpuMask_def mcpuShift_def mcpumaxShift_def
  waitstopShift_def gwaitingShift_def maxgomaxprocs_def

subsection \<open>Data\<close>

datatype gstatus = Gidle | Grunnable | Grunning | Gsyscall | Gwaiting | Gmoribund | Gdead

record Gobuf =
  gb_sp :: uintptr
  gb_pc :: uintptr
  gb_g :: ptr

record Stktop =
  st_stackguard :: uintptr
  st_stackbase :: uintptr
  st_gobuf :: Gobuf
  st_argsize :: uint32
  st_argp :: uintptr
  st_free :: uintptr
  st_panic :: bool

text \<open>
  A deferred-call record.  The \<open>link\<close> field is the rest of the list the record
  stands in: a task's \<open>defer\<close> field is the list of its records, the head
  first.
\<close>

record Defer =
  d_siz :: int32
  d_nofree :: bool
  d_argp :: uintptr
  d_pc :: uintptr
  d_fn :: uintptr
  d_args :: "8 word list"

record G =
  g_stackguard :: uintptr
  g_stackbase :: uintptr
  g_defer :: "Defer list"
  g_sched :: Gobuf
  g_gcstack :: uintptr
  g_gcsp :: uintptr
  g_gcguard :: uintptr
  g_stack0 :: uintptr
  g_entry :: uintptr
  g_status :: gstatus
  g_schedlink :: ptr
  g_readyonstop :: bool
  g_ispanic :: bool
  g_m :: ptr
  g_lockedm :: ptr
  g_idlem :: ptr

record M =
  m_g0 :: ptr
  m_morepc :: uintptr
  m_moreargp :: uintptr
  m_morebuf :: Gobuf
  m_moreframesize :: uint32
  m_moreargsize :: uint32
  m_curg :: ptr
  m_id :: int32
  m_mallocing :: int32
  m_gcing :: int32
  m_locks :: int32
  m_waitnextg :: int32
  m_profilehz :: int32
  m_fastrand :: uint32
  m_nextg :: ptr
  m_alllink :: ptr
  m_schedlink :: ptr
  m_idleg :: ptr
  m_lockedg :: ptr

text \<open>The calls into the platform layer that a run makes, as it makes them.\<close>

datatype Note = Stopped | Havenextg nat

datatype event =
    Lock
  | Unlock
  | Notewakeup Note
  | Noteclear Note
  | Notesleep Note
  | Newosproc nat
  | Cgo_thread_start nat
  | Stackalloc int32
  | Stackfree uintptr uintptr
  | Resetcpuprofiler int32
  | Reflect_call uintptr "8 word list" int32

record state =
  gfree :: ptr
  ghead :: ptr
  gtail :: ptr
  gwait :: int32
  gcount :: int32
  grunning :: int32
  mhead :: ptr
  mwait :: int32
  mcount :: int32
  atomic :: uint32
  predawn :: int32
  profilehz :: int32
  gomaxprocs :: int32
  singleproc :: bool
  gcwaiting :: int32
  iscgo :: bool
  libcgo_thread_start :: bool
  mwakeup :: ptr
  allm :: ptr
  gs :: "nat \<Rightarrow> G"
  ms :: "nat \<Rightarrow> M"
  stktops :: "uintptr \<Rightarrow> Stktop"
  g_brk :: nat
  m_brk :: nat
  m_reg :: nat
  g_reg :: nat
  trace :: "event list"

text \<open>
  Constants of the build that proc.c takes from its headers (stack.h, runtime.h,
  the linker): they are parameters here.  \<open>goexit_pc\<close> and \<open>lessstack_pc\<close> are
  the addresses of \<open>runtime\<cdot>goexit\<close> and \<open>runtime\<cdot>lessstack\<close>.
\<close>

record build =
  StackMin :: int32
  StackExtra :: int32
  StackSystem :: int32
  StackGuard :: int32
  sizeof_Stktop :: uintptr
  sizeof_uintptr :: nat
  thechar :: char
  Windows :: bool
  goexit_pc :: uintptr
  lessstack_pc :: uintptr

text \<open>
  How a run ends when it does not return to its caller: a fatal error
  (\<open>runtime\<cdot>throw\<close>), the end of the process (\<open>runtime\<cdot>exit\<close>), a read or write
  through \<open>nil\<close>, the thread asleep on its \<open>havenextg\<close> note, or a jump into a
  saved context (\<open>runtime\<cdot>gogo\<close>, \<open>runtime\<cdot>gogocall\<close>); the last three with the
  state left behind.
\<close>

datatype stop =
    Throw string
  | Exit int
  | Fault
  | Parked state
  | Gogo state Gobuf
  | Gogocall state Gobuf uintptr

type_synonym 'a result = "stop + 'a"

definition bind_r :: "'a result \<Rightarrow> ('a \<Rightarrow> 'b result) \<Rightarrow> 'b result" where
  "bind_r r f = (case r of Inl e \<Rightarrow> Inl e | Inr x \<Rightarrow> f x)"

definition emit :: "event \<Rightarrow> state \<Rightarrow> state" where
  "emit e s = s\<lparr>trace := trace s @ [e]\<rparr>"

definition upd_g :: "nat \<Rightarrow> (G \<Rightarrow> G) \<Rightarrow> state \<Rightarrow> state" where
  "upd_g a f s = s\<lparr>gs := (gs s)(a := f (gs s a))\<rparr>"

definition upd_m :: "nat \<Rightarrow> (M \<Rightarrow> M) \<Rightarrow> state \<Rightarrow> state" where
  "upd_m a f s = s\<lparr>ms := (ms s)(a := f (ms s a))\<rparr>"

subsection \<open>Atomic operations on the word\<close>

definition cas :: "uint32 \<Rightarrow> uint32 \<Rightarrow> state \<Rightarrow> bool \<times> state" where
  "cas old new s = (if atomic s = old then (True, s\<lparr>atomic := new\<rparr>) else (False, s))"

definition xadd :: "uint32 \<Rightarrow> state \<Rightarrow> uint32 \<times> state" where
  "xadd delta s = (atomic s + delta, s\<lparr>atomic := atomic s + delta\<rparr>)"

definition atomicload :: "state \<Rightarrow> uint32" where
  "atomicload s = atomic s"

function setmcpumax :: "uint32 \<Rightarrow> state \<Rightarrow> state" where
  "setmcpumax n s =
     (let v = atomic s;
          w = v;
          w = w AND NOT (push_bit mcpumaxShift mcpuMask);
          w = w OR push_bit mcpumaxShift n
      in if fst (cas v w s) then snd (cas v w s) else setmcpumax n (snd (cas v w s)))"
  by pat_completeness auto
termination
  by (relation "{}") (simp_all add: cas_def)

function canaddmcpu :: "state \<Rightarrow> bool \<times> state" where
  "canaddmcpu s =
     (let v = atomic s
      in if atomic_mcpu v \<ge> atomic_mcpumax v then (False, s)
         else if fst (cas v (v + push_bit mcpuShift 1) s)
              then (True, snd (cas v (v + push_bit mcpuShift 1) s))
              else canaddmcpu (snd (cas v (v + push_bit mcpuShift 1) s)))"
  by pat_completeness auto
termination
  by (relation "{}") (simp_all add: cas_def)


declare setmcpumax.simps [simp del] canaddmcpu.simps [simp del]


subsection \<open>Zeroed memory\<close>

text \<open>
  The globals as the loader leaves them, all zero, with the current thread's
  \<open>m\<close> and \<open>g\<close> registers at the addresses 0.
\<close>

definition zero_Gobuf :: Gobuf where
  "zero_Gobuf = \<lparr>gb_sp = 0, gb_pc = 0, gb_g = None\<rparr>"

definition zero_G :: G where
  "zero_G = \<lparr>g_stackguard = 0, g_stackbase = 0, g_defer = [], g_sched = zero_Gobuf,
     g_gcstack = 0, g_gcsp = 0, g_gcguard = 0, g_stack0 = 0, g_entry = 0,
     g_status = Gidle, g_schedlink = None, g_readyonstop = False, g_ispanic = False,
     g_m = None, g_lockedm = None, g_idlem = None\<rparr>"

definition zero_M :: M where
  "zero_M = \<lparr>m_g0 = None, m_morepc = 0, m_moreargp = 0, m_morebuf = zero_Gobuf,
     m_moreframesize = 0, m_moreargsize = 0, m_curg = None, m_id = 0, m_mallocing = 0,
     m_gcing = 0, m_locks = 0, m_waitnextg = 0, m_profilehz = 0, m_fastrand = 0,
     m_nextg = None, m_alllink = None, m_schedlink = None, m_idleg = None,
     m_lockedg = None\<rparr>"

definition zero_Stktop :: Stktop where
  "zero_Stktop = \<lparr>st_stackguard = 0, st_stackbase = 0, st_gobuf = zero_Gobuf,
     st_argsize = 0, st_argp = 0, st_free = 0, st_panic = False\<rparr>"

definition zero_state :: state where
  "zero_state = \<lparr>gfree = None, ghead = None, gtail = None, gwait = 0, gcount = 0,
     grunning = 0, mhead = None, mwait = 0, mcount = 0, atomic = 0, predawn = 0,
     profilehz = 0, gomaxprocs = 0, singleproc = False, gcwaiting = 0, iscgo = False,
     libcgo_thread_start = False, mwakeup = None, allm = None,
     gs = (\<lambda>_. zero_G), ms = (\<lambda>_. zero_M), stktops = (\<lambda>_. zero_Stktop),
     g_brk = 1, m_brk = 1, m_reg = 0, g_reg = 0, trace = []\<rparr>"

subsection \<open>The scheduler lock and the deferred wakeup\<close>

definition schedlock :: "state \<Rightarrow> state" where
  "schedlock s = emit Lock s"

definition schedunlock :: "state \<Rightarrow> state" where
  "schedunlock s =
     (let m = mwakeup s;
          s = s\<lparr>mwakeup := None\<rparr>;
          s = emit Unlock s
      in case m of None \<Rightarrow> s | Some a \<Rightarrow> emit (Notewakeup (Havenextg a)) s)"

text \<open>Pass \<open>g\<close> to \<open>m\<close> for running; the caller has already incremented mcpu.\<close>

definition mnextg :: "nat \<Rightarrow> nat \<Rightarrow> state \<Rightarrow> state" where
  "mnextg m g s =
     (let s = s\<lparr>grunning := grunning s + 1\<rparr>;
          s = upd_m m (\<lambda>x. x\<lparr>m_nextg := Some g\<rparr>) s
      in if m_waitnextg (ms s m) \<noteq> 0
         then (let s = upd_m m (\<lambda>x. x\<lparr>m_waitnextg := 0\<rparr>) s;
                   s = (case mwakeup s of None \<Rightarrow> s
                        | Some w \<Rightarrow> emit (Notewakeup (Havenextg w)) s)
               in s\<lparr>mwakeup := Some m\<rparr>)
         else s)"

subsection \<open>The run queue and the list of idle threads\<close>

definition gput :: "nat \<Rightarrow> state \<Rightarrow> state result" where
  "gput g s =
     (let m = g_lockedm (gs s g);
          wired = (m \<noteq> None \<and> fst (canaddmcpu s));
          s = (if m \<noteq> None then snd (canaddmcpu s) else s)
      in if wired then Inr (mnextg (the m) g s)
         else case g_idlem (gs s g) of
           Some im \<Rightarrow>
             (if m_idleg (ms s im) \<noteq> None then Inl (Throw ''runtime: double idle'')
              else Inr (upd_m im (\<lambda>x. x\<lparr>m_idleg := Some g\<rparr>) s))
         | None \<Rightarrow>
             (let s = upd_g g (\<lambda>x. x\<lparr>g_schedlink := None\<rparr>) s
              in if ghead s \<noteq> None \<and> gtail s = None then Inl Fault
                 else
                   (let s = (if ghead s = None then s\<lparr>ghead := Some g\<rparr>
                             else upd_g (the (gtail s)) (\<lambda>x. x\<lparr>g_schedlink := Some g\<rparr>) s);
                        s = s\<lparr>gtail := Some g\<rparr>;
                        old = gwait s;
                        s = s\<lparr>gwait := gwait s + 1\<rparr>
                    in Inr (if old = 0 then snd (xadd (push_bit gwaitingShift 1) s) else s))))"

definition haveg :: "state \<Rightarrow> bool" where
  "haveg s = (ghead s \<noteq> None \<or> m_idleg (ms s (m_reg s)) \<noteq> None)"

definition gget :: "state \<Rightarrow> ptr \<times> state" where
  "gget s =
     (case ghead s of
        Some g \<Rightarrow>
          (let s = s\<lparr>ghead := g_schedlink (gs s g)\<rparr>;
               s = (if ghead s = None then s\<lparr>gtail := None\<rparr> else s);
               s = s\<lparr>gwait := gwait s - 1\<rparr>
           in (Some g, if gwait s = 0 then snd (xadd (push_bit gwaitingShift (- 1)) s) else s))
      | None \<Rightarrow>
          (case m_idleg (ms s (m_reg s)) of
             Some g \<Rightarrow> (Some g, upd_m (m_reg s) (\<lambda>x. x\<lparr>m_idleg := None\<rparr>) s)
           | None \<Rightarrow> (None, s)))"

definition mput :: "nat \<Rightarrow> state \<Rightarrow> state" where
  "mput m s =
     (let s = upd_m m (\<lambda>x. x\<lparr>m_schedlink := mhead s\<rparr>) s;
          s = s\<lparr>mhead := Some m\<rparr>
      in s\<lparr>mwait := mwait s + 1\<rparr>)"

definition mget :: "nat \<Rightarrow> state \<Rightarrow> ptr \<times> state" where
  "mget g s =
     (case g_lockedm (gs s g) of
        Some m \<Rightarrow> (Some m, s)
      | None \<Rightarrow>
          (case mhead s of
             Some m \<Rightarrow> (Some m, s\<lparr>mhead := m_schedlink (ms s m), mwait := mwait s - 1\<rparr>)
           | None \<Rightarrow> (None, s)))"

text \<open>
  \<open>runtime\<cdot>malloc\<close> hands out the next free address and zeroed memory.  The
  per-thread stack allocator that \<open>mcommoninit\<close> also sets up is not part of the
  state, and neither is the stack that \<open>runtime\<cdot>malg\<close> allocates for the new
  \<open>G\<close>: only the \<open>G\<close> itself is.
\<close>

definition mcommoninit :: "nat \<Rightarrow> state \<Rightarrow> state" where
  "mcommoninit m s =
     (let s = upd_m m (\<lambda>x. x\<lparr>m_alllink := allm s\<rparr>) s;
          s = s\<lparr>allm := Some m\<rparr>;
          s = upd_m m (\<lambda>x. x\<lparr>m_id := mcount s\<rparr>) s;
          s = s\<lparr>mcount := mcount s + 1\<rparr>
      in upd_m m (\<lambda>x. x\<lparr>m_fastrand := 0x49f6428a + m_id x\<rparr>) s)"

subsection \<open>The fields of the atomic word as numbers\<close>

lemma unat_lt32: "unat (v::32 word) < 4294967296"
  using unsigned_less[of v, where ?'a = nat] by simp

lemma mcpuMask_mask: "mcpuMask = mask 15"
  by (simp add: shift_defs mask_eq_exp_minus_1)

lemma atomic_mcpu_take_bit: "atomic_mcpu v = take_bit 15 v"
  by (simp add: atomic_mcpu_def mcpuMask_mask shift_defs take_bit_eq_mask)

lemma atomic_mcpumax_take_bit: "atomic_mcpumax v = take_bit 15 (drop_bit 15 v)"
  by (simp add: atomic_mcpumax_def mcpuMask_mask shift_defs take_bit_eq_mask)

lemma unat_mcpu: "unat (atomic_mcpu v) = unat v mod 32768"
  by (simp add: atomic_mcpu_take_bit unsigned_take_bit_eq take_bit_eq_mod unat_mod)

lemma unat_mcpumax: "unat (atomic_mcpumax v) = unat v div 32768 mod 32768"
  by (simp add: atomic_mcpumax_take_bit unsigned_take_bit_eq take_bit_eq_mod
      unsigned_drop_bit_eq drop_bit_eq_div unat_mod unat_div)

lemma unat_waitstop: "unat (atomic_waitstop v) = unat v div 1073741824 mod 2"
  by (simp add: atomic_waitstop_def shift_defs unat_mod unat_div drop_bit_eq_div and_one_eq)

lemma unat_gwaiting: "unat (atomic_gwaiting v) = unat v div 2147483648 mod 2"
  by (simp add: atomic_gwaiting_def shift_defs unat_mod unat_div drop_bit_eq_div and_one_eq)

lemma nat_radix_mod1:
  "a < 32768 \<Longrightarrow> (a + 32768 * b + 1073741824 * c + 2147483648 * d) mod 32768 = a"
  for a :: nat
proof -
  assume a: "a < 32768"
  have "a + 32768 * b + 1073741824 * c + 2147483648 * d
      = a + 32768 * (b + 32768 * c + 65536 * d)" by simp
  thus ?thesis using a by (simp only: mod_mult_self2 mod_less)
qed

lemma nat_radix_div1:
  "a < 32768 \<Longrightarrow> (a + 32768 * b + 1073741824 * c + 2147483648 * d) div 32768
     = b + 32768 * c + 65536 * d"
  for a :: nat
proof -
  assume a: "a < 32768"
  have "a + 32768 * b + 1073741824 * c + 2147483648 * d
      = a + 32768 * (b + 32768 * c + 65536 * d)" by simp
  thus ?thesis using a by (simp only: div_mult_self2 div_less)
qed

lemma nat_radix_mod2: "b < 32768 \<Longrightarrow> (b + 32768 * c + 65536 * d) mod 32768 = b"
  for b :: nat
proof -
  assume b: "b < 32768"
  have "b + 32768 * c + 65536 * d = b + 32768 * (c + 2 * d)" by simp
  thus ?thesis using b by (simp only: mod_mult_self2 mod_less)
qed

lemma nat_radix_div2: "b < 32768 \<Longrightarrow> (b + 32768 * c + 65536 * d) div 32768 = c + 2 * d"
  for b :: nat
proof -
  assume b: "b < 32768"
  have "b + 32768 * c + 65536 * d = b + 32768 * (c + 2 * d)" by simp
  thus ?thesis using b by (simp only: div_mult_self2 div_less)
qed

text \<open>The word is its four fields, each at its place.\<close>

lemma unat_fields:
  "unat v = unat (atomic_mcpu v) + 32768 * unat (atomic_mcpumax v)
      + 1073741824 * unat (atomic_waitstop v) + 2147483648 * unat (atomic_gwaiting v)"
proof -
  define x where "x = unat v"
  have lt: "x < 4294967296" using unat_lt32[of v] by (simp add: x_def)
  have d31: "x div 2147483648 < 2" using lt by simp
  have e1: "x = x mod 32768 + 32768 * (x div 32768)" by simp
  have "x div 1073741824 = x div 32768 div 32768" by (simp add: div_mult2_eq[symmetric])
  hence e2: "x div 32768 = x div 32768 mod 32768 + 32768 * (x div 1073741824)" by simp
  have "x div 2147483648 = x div 1073741824 div 2" by (simp add: div_mult2_eq[symmetric])
  hence e3: "x div 1073741824 = x div 1073741824 mod 2 + 2 * (x div 2147483648)" by simp
  have e4: "x div 2147483648 = x div 2147483648 mod 2" using d31 by simp
  show ?thesis
    unfolding unat_mcpu unat_mcpumax unat_waitstop unat_gwaiting x_def[symmetric]
    using e1 e2 e3 e4 by linarith
qed

lemma fields_bounds:
  "unat (atomic_mcpu v) < 32768" "unat (atomic_mcpumax v) < 32768"
  "unat (atomic_waitstop v) < 2" "unat (atomic_gwaiting v) < 2"
  by (simp_all add: unat_mcpu unat_mcpumax unat_waitstop unat_gwaiting)

text \<open>A word that is the sum of four fields in range has these fields.\<close>

lemma fields_unique:
  assumes "unat v = a + 32768 * b + 1073741824 * c + 2147483648 * d"
    and "a < 32768" and "b < 32768" and "c < 2" and "d < 2"
  shows "unat (atomic_mcpu v) = a" and "unat (atomic_mcpumax v) = b"
    and "unat (atomic_waitstop v) = c" and "unat (atomic_gwaiting v) = d"
proof -
  define x where "x = unat v"
  have x: "x = a + 32768 * b + 1073741824 * c + 2147483648 * d"
    using assms(1) by (simp add: x_def)
  have m1: "x mod 32768 = a" using assms(2) by (simp only: x nat_radix_mod1)
  have d1: "x div 32768 = b + 32768 * c + 65536 * d"
    using assms(2) by (simp only: x nat_radix_div1)
  have m2: "x div 32768 mod 32768 = b" using assms(3) by (simp only: d1 nat_radix_mod2)
  have "x div 1073741824 = x div 32768 div 32768" by (simp add: div_mult2_eq[symmetric])
  hence d2: "x div 1073741824 = c + 2 * d"
    using assms(3) by (simp only: d1 nat_radix_div2)
  have "x div 2147483648 = x div 1073741824 div 2" by (simp add: div_mult2_eq[symmetric])
  hence d3: "x div 2147483648 = d" using assms(4) by (simp only: d2)
  show "unat (atomic_mcpu v) = a" by (simp add: unat_mcpu m1 flip: x_def)
  show "unat (atomic_mcpumax v) = b" by (simp add: unat_mcpumax m2 flip: x_def)
  show "unat (atomic_waitstop v) = c" using assms(4) by (simp add: unat_waitstop d2 flip: x_def)
  show "unat (atomic_gwaiting v) = d" using assms(5) by (simp add: unat_gwaiting d3 flip: x_def)
qed


subsection \<open>Arithmetic on the atomic word\<close>

lemma canaddmcpu_eq:
  "canaddmcpu s = (if atomic_mcpumax (atomic s) \<le> atomic_mcpu (atomic s) then (False, s)
     else (True, s\<lparr>atomic := atomic s + 1\<rparr>))"
  by (subst canaddmcpu.simps) (simp add: cas_def Let_def shift_defs)

lemma setmcpumax_eq:
  "setmcpumax n s = s\<lparr>atomic := (atomic s AND NOT (push_bit 15 mcpuMask)) OR push_bit 15 n\<rparr>"
  by (subst setmcpumax.simps) (simp add: cas_def Let_def shift_defs)

lemma word_eq_unatI: "unat a = unat b \<Longrightarrow> a = b" for a b :: "32 word"
  by (simp add: word_eq_iff_unsigned[where ?'a = nat])

lemma gwaiting_shift_pos: "push_bit gwaitingShift (1 :: 32 word) = 2147483648"
  by (simp add: shift_defs)

lemma gwaiting_shift_neg: "push_bit gwaitingShift (- 1 :: 32 word) = 2147483648"
  by (simp add: shift_defs mask_eq_exp_minus_1 not_eq_complement)

lemma not_mask_gwaitingShift: "NOT (mask gwaitingShift) = (2147483648 :: 32 word)"
  by (simp add: shift_defs mask_eq_exp_minus_1 not_eq_complement)

lemma not_mask_waitstopShift: "NOT (mask waitstopShift) = (- 1073741824 :: 32 word)"
  by (simp add: shift_defs mask_eq_exp_minus_1 not_eq_complement)

lemma waitstop_shift_pos: "push_bit waitstopShift (1 :: 32 word) = 1073741824"
  by (simp add: shift_defs)

lemma waitstop_shift_neg: "push_bit waitstopShift (- 1 :: 32 word) = - 1073741824"
  by (simp add: shift_defs mask_eq_exp_minus_1 not_eq_complement)

lemma mcpu_shift_pos: "push_bit mcpuShift (1 :: 32 word) = 1"
  by (simp add: shift_defs)

lemma mcpu_shift_neg: "push_bit mcpuShift (- 1 :: 32 word) = - 1"
  by (simp add: shift_defs)

text \<open>Adding one below the cap increments mcpu and nothing else.\<close>

lemma fields_succ:
  assumes "atomic_mcpu v < atomic_mcpumax v"
  shows "unat (atomic_mcpu (v + 1)) = unat (atomic_mcpu v) + 1"
    and "atomic_mcpumax (v + 1) = atomic_mcpumax v"
    and "atomic_waitstop (v + 1) = atomic_waitstop v"
    and "atomic_gwaiting (v + 1) = atomic_gwaiting v"
proof -
  note b = fields_bounds[of v]
  have lt: "unat (atomic_mcpu v) + 1 < 32768"
    using assms b by (simp add: word_less_nat_alt)
  have "unat v + 1 < 4294967296" using unat_fields[of v] b lt by linarith
  hence "unat (v + 1) = unat v + 1" by (simp add: unat_word_ariths)
  hence u: "unat (v + 1) = (unat (atomic_mcpu v) + 1) + 32768 * unat (atomic_mcpumax v)
      + 1073741824 * unat (atomic_waitstop v) + 2147483648 * unat (atomic_gwaiting v)"
    using unat_fields[of v] by linarith
  note f = fields_unique[OF u lt b(2) b(3) b(4)]
  show "unat (atomic_mcpu (v + 1)) = unat (atomic_mcpu v) + 1" by (rule f)
  show "atomic_mcpumax (v + 1) = atomic_mcpumax v" using f(2) by (rule word_eq_unatI)
  show "atomic_waitstop (v + 1) = atomic_waitstop v" using f(3) by (rule word_eq_unatI)
  show "atomic_gwaiting (v + 1) = atomic_gwaiting v" using f(4) by (rule word_eq_unatI)
qed

text \<open>Adding \<open>2^31\<close> flips gwaiting and nothing else.\<close>

lemma fields_flip:
  shows "atomic_mcpu (v + 2147483648) = atomic_mcpu v"
    and "atomic_mcpumax (v + 2147483648) = atomic_mcpumax v"
    and "atomic_waitstop (v + 2147483648) = atomic_waitstop v"
    and "unat (atomic_gwaiting (v + 2147483648)) = 1 - unat (atomic_gwaiting v)"
proof -
  note b = fields_bounds[of v]
  let ?v' = "v + 2147483648"
  have un: "unat ?v' = (unat v + 2147483648) mod 4294967296"
    by (simp add: unat_word_ariths)
  have d: "1 - unat (atomic_gwaiting v) < 2" by simp
  have u: "unat ?v' = unat (atomic_mcpu v) + 32768 * unat (atomic_mcpumax v)
      + 1073741824 * unat (atomic_waitstop v) + 2147483648 * (1 - unat (atomic_gwaiting v))"
  proof (cases "unat (atomic_gwaiting v) = 0")
    case True
    hence "unat v + 2147483648 < 4294967296" using unat_fields[of v] b by linarith
    hence "unat ?v' = unat v + 2147483648" using un by simp
    thus ?thesis using True unat_fields[of v] by linarith
  next
    case False
    hence one: "unat (atomic_gwaiting v) = 1" using b(4) by linarith
    hence ge: "2147483648 \<le> unat v" using unat_fields[of v] by linarith
    have "unat v < 4294967296" by (rule unat_lt32)
    hence "(unat v + 2147483648) mod 4294967296 = unat v - 2147483648"
      using ge by (simp add: mod_if)
    thus ?thesis using one un ge unat_fields[of v] by linarith
  qed
  note f = fields_unique[OF u b(1) b(2) b(3) d]
  show "atomic_mcpu ?v' = atomic_mcpu v" using f(1) by (rule word_eq_unatI)
  show "atomic_mcpumax ?v' = atomic_mcpumax v" using f(2) by (rule word_eq_unatI)
  show "atomic_waitstop ?v' = atomic_waitstop v" using f(3) by (rule word_eq_unatI)
  show "unat (atomic_gwaiting ?v') = 1 - unat (atomic_gwaiting v)" by (rule f(4))
qed

text \<open>The room left under the cap: what the matching loops count down.\<close>

definition room :: "state \<Rightarrow> nat" where
  "room s = unat (atomic_mcpumax (atomic s)) - unat (atomic_mcpu (atomic s))"

lemma room_canaddmcpu:
  "fst (canaddmcpu s) \<Longrightarrow> room (snd (canaddmcpu s)) < room s"
  by (auto simp: canaddmcpu_eq room_def fields_succ word_less_nat_alt not_le
      split: if_splits)

lemma gget_room: "room (snd (gget s)) = room s"
  by (simp add: gget_def room_def Let_def xadd_def upd_m_def not_mask_gwaitingShift fields_flip
      split: option.splits)

lemma mget_atomic: "atomic (snd (mget g s)) = atomic s"
  by (simp add: mget_def split: option.splits)

lemma mnextg_atomic: "atomic (mnextg m g s) = atomic s"
  by (simp add: mnextg_def Let_def upd_m_def emit_def split: option.splits)

lemma mcommoninit_atomic: "atomic (mcommoninit m s) = atomic s"
  by (simp add: mcommoninit_def Let_def upd_m_def)

subsection \<open>Matching threads to goroutines\<close>

definition malloc_M :: "state \<Rightarrow> nat \<times> state" where
  "malloc_M s = (m_brk s, s\<lparr>ms := (ms s)(m_brk s := zero_M), m_brk := m_brk s + 1\<rparr>)"

definition malg :: "int32 \<Rightarrow> state \<Rightarrow> nat \<times> state" where
  "malg stacksize s = (g_brk s, s\<lparr>gs := (gs s)(g_brk s := zero_G), g_brk := g_brk s + 1\<rparr>)"

text \<open>
  One turn of the loop of \<open>matchmg\<close>, after \<open>haveg() && canaddmcpu()\<close> has
  succeeded: take a goroutine, find or start the thread that will run it.
\<close>

definition matchmg_body :: "build \<Rightarrow> state \<Rightarrow> state result" where
  "matchmg_body b s =
     (case gget s of
        (None, s) \<Rightarrow> Inl (Throw ''gget inconsistency'')
      | (Some g, s) \<Rightarrow>
          (case mget g s of
             (Some m, s) \<Rightarrow> Inr (mnextg m g s)
           | (None, s) \<Rightarrow>
               (let (m, s) = malloc_M s;
                    s = mcommoninit m s
                in if iscgo s
                   then (if \<not> libcgo_thread_start s
                         then Inl (Throw ''libcgo_thread_start missing'')
                         else (let (g0, s) = malg (- 1) s;
                                   s = upd_m m (\<lambda>x. x\<lparr>m_g0 := Some g0\<rparr>) s;
                                   s = emit (Cgo_thread_start m) s
                               in Inr (mnextg m g s)))
                   else (let (g0, s) = malg (if Windows b then - 1 else 8192) s;
                             s = upd_m m (\<lambda>x. x\<lparr>m_g0 := Some g0\<rparr>) s;
                             s = emit (Newosproc m) s
                         in Inr (mnextg m g s)))))"

lemma matchmg_body_room: "matchmg_body b s = Inr s' \<Longrightarrow> room s' = room s"
proof -
  assume a: "matchmg_body b s = Inr s'"
  have "atomic s' = atomic (snd (gget s))"
    using a
    by (auto simp: matchmg_body_def Let_def malloc_M_def malg_def mnextg_atomic
        mcommoninit_atomic upd_m_def emit_def
        split: prod.splits option.splits if_splits dest: arg_cong[where f = "\<lambda>p. atomic (snd p)", of "mget _ _"] simp: mget_atomic)
  thus ?thesis using gget_room[of s] by (simp add: room_def)
qed

function matchmg_loop :: "build \<Rightarrow> state \<Rightarrow> state result" where
  "matchmg_loop b s =
     (if haveg s
      then (if fst (canaddmcpu s)
            then (case matchmg_body b (snd (canaddmcpu s)) of
                    Inl e \<Rightarrow> Inl e
                  | Inr s' \<Rightarrow> matchmg_loop b s')
            else Inr (snd (canaddmcpu s)))
      else Inr s)"
  by pat_completeness auto
termination
  by (relation "measure (\<lambda>(b, s). room s)")
    (auto dest!: matchmg_body_room dest: room_canaddmcpu)

declare matchmg_loop.simps [simp del]

definition matchmg :: "build \<Rightarrow> state \<Rightarrow> state result" where
  "matchmg b s =
     (if m_mallocing (ms s (m_reg s)) \<noteq> 0 \<or> m_gcing (ms s (m_reg s)) \<noteq> 0 then Inr s
      else matchmg_loop b s)"


definition readylocked :: "build \<Rightarrow> nat \<Rightarrow> state \<Rightarrow> state result" where
  "readylocked b g s =
     (if g_m (gs s g) \<noteq> None then Inr (upd_g g (\<lambda>x. x\<lparr>g_readyonstop := True\<rparr>) s)
      else if g_status (gs s g) = Grunnable \<or> g_status (gs s g) = Grunning
      then Inl (Throw ''bad g->status in ready'')
      else (let s = upd_g g (\<lambda>x. x\<lparr>g_status := Grunnable\<rparr>) s
            in bind_r (gput g s) (\<lambda>s. if predawn s = 0 then matchmg b s else Inr s)))"

subsection \<open>Finding the next goroutine\<close>

lemma gget_room_fst: "gget s = (g, s') \<Longrightarrow> room s' = room s"
  using gget_room[of s] by simp

lemma mnextg_room: "room (mnextg m g s) = room s"
  by (simp add: room_def mnextg_atomic)

text \<open>
  The loop of \<open>nextgandunlock\<close> that looks for work on the global queue.  It
  returns a goroutine, the scheduler unlocked, or \<open>None\<close> when the loop ends.
\<close>

function nextg_loop :: "state \<Rightarrow> (ptr \<times> state) result" where
  "nextg_loop s =
     (if haveg s
      then (if fst (canaddmcpu s)
            then (case gget (snd (canaddmcpu s)) of
                    (None, s') \<Rightarrow> Inl (Throw ''gget inconsistency'')
                  | (Some gp, s') \<Rightarrow>
                      (case g_lockedm (gs s' gp) of
                         Some lm \<Rightarrow> nextg_loop (mnextg lm gp s')
                       | None \<Rightarrow> Inr (Some gp, schedunlock (s'\<lparr>grunning := grunning s' + 1\<rparr>))))
            else Inr (None, snd (canaddmcpu s)))
      else Inr (None, s))"
  by pat_completeness auto
termination
  by (relation "measure room")
    (auto simp: mnextg_room dest!: gget_room_fst[OF sym] dest: room_canaddmcpu)

declare nextg_loop.simps [simp del]

text \<open>
  The end of \<open>nextgandunlock\<close>: nothing to run, so the thread announces that it
  waits, completes a pending stop-the-world, unlocks and sleeps on its note.
  What it does once woken is \<open>nextg_wake\<close>.
\<close>

definition nextg_park :: "state \<Rightarrow> 'a result" where
  "nextg_park s =
     (let v = atomicload s
      in if grunning s = 0 then Inl (Throw ''all goroutines are asleep - deadlock!'')
         else (let m = m_reg s;
                   s = upd_m m (\<lambda>x. x\<lparr>m_nextg := None\<rparr>) s;
                   s = upd_m m (\<lambda>x. x\<lparr>m_waitnextg := 1\<rparr>) s;
                   s = emit (Noteclear (Havenextg m)) s;
                   s = (if atomic_waitstop v \<noteq> 0 \<and> atomic_mcpu v \<le> atomic_mcpumax v
                        then emit (Notewakeup Stopped)
                               (snd (xadd (push_bit waitstopShift (- 1)) s))
                        else s);
                   s = schedunlock s;
                   s = emit (Notesleep (Havenextg m)) s
               in Inl (Parked s)))"

definition nextg_wake :: "state \<Rightarrow> (nat \<times> state) result" where
  "nextg_wake s =
     (case m_nextg (ms s (m_reg s)) of
        None \<Rightarrow> Inl (Throw ''bad m->nextg in nextgoroutine'')
      | Some gp \<Rightarrow> Inr (gp, upd_m (m_reg s) (\<lambda>x. x\<lparr>m_nextg := None\<rparr>) s))"

definition take_nextg :: "nat \<Rightarrow> state \<Rightarrow> (nat \<times> state) result" where
  "take_nextg gp s = Inr (gp, schedunlock (upd_m (m_reg s) (\<lambda>x. x\<lparr>m_nextg := None\<rparr>) s))"

definition nextgandunlock :: "build \<Rightarrow> state \<Rightarrow> (nat \<times> state) result" where
  "nextgandunlock b s =
     (if atomic_mcpu (atomic s) \<ge> maxgomaxprocs then Inl (Throw ''negative mcpu'')
      else case m_nextg (ms s (m_reg s)) of
        Some gp \<Rightarrow> take_nextg gp s
      | None \<Rightarrow>
          (if m_lockedg (ms s (m_reg s)) \<noteq> None
           then (if gwait s \<noteq> 0
                 then bind_r (matchmg b s)
                        (\<lambda>s. case m_nextg (ms s (m_reg s)) of
                                Some gp \<Rightarrow> take_nextg gp s
                              | None \<Rightarrow> nextg_park s)
                 else nextg_park s)
           else bind_r (nextg_loop s)
                  (\<lambda>(r, s). case r of
                       Some gp \<Rightarrow> Inr (gp, s)
                     | None \<Rightarrow> nextg_park (mput (m_reg s) s))))"

subsection \<open>Retiring stack segments\<close>

text \<open>
  The headers of the stack segments are the store \<open>stktops\<close>, indexed by the
  address of the header; \<open>nil\<close> is the address 0.  Nothing in the code bounds the
  walk along the headers, so the loop is a partial function: \<open>None\<close> when it
  does not end.
\<close>

partial_function (option) unwindstack_loop :: "build \<Rightarrow> nat \<Rightarrow> uintptr \<Rightarrow> state \<Rightarrow> state option"
where
  "unwindstack_loop b gp sp s =
     (let top = g_stackbase (gs s gp)
      in if top \<noteq> 0 \<and> st_stackbase (stktops s top) \<noteq> 0
         then (let stk = g_stackguard (gs s gp) - scast (StackGuard b)
               in if stk \<le> sp \<and> sp < g_stackbase (gs s gp) then Some s
                  else (let s' = upd_g gp (\<lambda>x. x\<lparr>g_stackbase := st_stackbase (stktops s top)\<rparr>) s;
                            s' = upd_g gp (\<lambda>x. x\<lparr>g_stackguard := st_stackguard (stktops s top)\<rparr>) s';
                            s' = (if st_free (stktops s top) \<noteq> 0
                                  then emit (Stackfree stk (st_free (stktops s top))) s'
                                  else s')
                        in unwindstack_loop b gp sp s'))
         else Some s)"

definition unwindstack :: "build \<Rightarrow> nat \<Rightarrow> uintptr \<Rightarrow> state \<Rightarrow> state result option" where
  "unwindstack b gp sp s =
     (if g_reg s = gp then Some (Inl (Throw ''unwindstack on self''))
      else case unwindstack_loop b gp sp s of
        None \<Rightarrow> None
      | Some s \<Rightarrow>
          Some (if sp \<noteq> 0 \<and> (sp < g_stackguard (gs s gp) - scast (StackGuard b)
                               \<or> g_stackbase (gs s gp) < sp)
                then Inl (Throw ''bad unwindstack'')
                else Inr s))"

definition gfput :: "build \<Rightarrow> nat \<Rightarrow> state \<Rightarrow> state result" where
  "gfput b g s =
     (if g_stackguard (gs s g) - scast (StackGuard b) \<noteq> g_stack0 (gs s g)
      then Inl (Throw ''invalid stack in gfput'')
      else (let s = upd_g g (\<lambda>x. x\<lparr>g_schedlink := gfree s\<rparr>) s
            in Inr (s\<lparr>gfree := Some g\<rparr>)))"

definition gfget :: "state \<Rightarrow> ptr \<times> state" where
  "gfget s =
     (case gfree s of
        None \<Rightarrow> (None, s)
      | Some g \<Rightarrow> (Some g, s\<lparr>gfree := g_schedlink (gs s g)\<rparr>))"


subsection \<open>One round of the scheduler\<close>

text \<open>
  \<open>schedule\<close> in three parts: the \<open>switch\<close> on the status of the goroutine that
  was running (\<open>schedule_status\<close>), the whole block \<open>if(gp != nil) { ... }\<close>
  around it (\<open>schedule_prev\<close>), and the dispatch of the goroutine that
  \<open>nextgandunlock\<close> returns (\<open>schedule_run\<close>).  \<open>runtime\<cdot>resetcpuprofiler\<close> belongs
  to the platform layer: its call is recorded and nothing else.
\<close>

definition schedule_status :: "build \<Rightarrow> nat \<Rightarrow> state \<Rightarrow> state result option" where
  "schedule_status b gp s =
     (case g_status (gs s gp) of
        Grunnable \<Rightarrow> Some (Inl (Throw ''bad gp->status in sched''))
      | Gdead \<Rightarrow> Some (Inl (Throw ''bad gp->status in sched''))
      | Grunning \<Rightarrow> Some (gput gp (upd_g gp (\<lambda>x. x\<lparr>g_status := Grunnable\<rparr>) s))
      | Gmoribund \<Rightarrow>
          (let s = upd_g gp (\<lambda>x. x\<lparr>g_status := Gdead\<rparr>) s;
               s = (if g_lockedm (gs s gp) \<noteq> None
                    then upd_m (m_reg s) (\<lambda>x. x\<lparr>m_lockedg := None\<rparr>)
                           (upd_g gp (\<lambda>x. x\<lparr>g_lockedm := None\<rparr>) s)
                    else s);
               s = upd_g gp (\<lambda>x. x\<lparr>g_idlem := None\<rparr>) s
           in case unwindstack b gp 0 s of
                None \<Rightarrow> None
              | Some (Inl e) \<Rightarrow> Some (Inl e)
              | Some (Inr s) \<Rightarrow>
                  (case gfput b gp s of
                     Inl e \<Rightarrow> Some (Inl e)
                   | Inr s \<Rightarrow>
                       (let s = s\<lparr>gcount := gcount s - 1\<rparr>
                        in if gcount s = 0 then Some (Inl (Exit 0)) else Some (Inr s))))
      | _ \<Rightarrow> Some (Inr s))"

definition schedule_prev :: "build \<Rightarrow> nat \<Rightarrow> state \<Rightarrow> state result option" where
  "schedule_prev b gp s =
     (if predawn s \<noteq> 0 then Some (Inl (Throw ''init rescheduling''))
      else (let s = upd_g gp (\<lambda>x. x\<lparr>g_m := None\<rparr>) s;
                s = s\<lparr>grunning := grunning s - 1\<rparr>;
                v = fst (xadd (push_bit mcpuShift (- 1)) s);
                s = snd (xadd (push_bit mcpuShift (- 1)) s)
            in if atomic_mcpu v > maxgomaxprocs
               then Some (Inl (Throw ''negative mcpu in scheduler''))
               else case schedule_status b gp s of
                      None \<Rightarrow> None
                    | Some (Inl e) \<Rightarrow> Some (Inl e)
                    | Some (Inr s) \<Rightarrow>
                        Some (if g_readyonstop (gs s gp)
                              then readylocked b gp (upd_g gp (\<lambda>x. x\<lparr>g_readyonstop := False\<rparr>) s)
                              else Inr s)))"

definition schedule_run :: "build \<Rightarrow> nat \<Rightarrow> state \<Rightarrow> stop" where
  "schedule_run b gp s =
     (let s = upd_g gp (\<lambda>x. x\<lparr>g_readyonstop := False\<rparr>) s;
          s = upd_g gp (\<lambda>x. x\<lparr>g_status := Grunning\<rparr>) s;
          s = upd_m (m_reg s) (\<lambda>x. x\<lparr>m_curg := Some gp\<rparr>) s;
          s = upd_g gp (\<lambda>x. x\<lparr>g_m := Some (m_reg s)\<rparr>) s;
          hz = profilehz s;
          s = (if m_profilehz (ms s (m_reg s)) \<noteq> hz then emit (Resetcpuprofiler hz) s else s)
      in if gb_pc (g_sched (gs s gp)) = goexit_pc b
         then Gogocall s (g_sched (gs s gp)) (g_entry (gs s gp))
         else Gogo s (g_sched (gs s gp)))"

definition schedule :: "build \<Rightarrow> ptr \<Rightarrow> state \<Rightarrow> stop option" where
  "schedule b gp s =
     (let s = schedlock s
      in case (case gp of None \<Rightarrow> Some (Inr s) | Some a \<Rightarrow> schedule_prev b a s) of
           None \<Rightarrow> None
         | Some (Inl e) \<Rightarrow> Some e
         | Some (Inr s) \<Rightarrow>
             (case nextgandunlock b s of
                Inl e \<Rightarrow> Some e
              | Inr (gp, s) \<Rightarrow> Some (schedule_run b gp s)))"

text \<open>
  \<open>runtime\<cdot>gosched\<close>: \<open>runtime\<cdot>mcall\<close> moves the thread to the stack of \<open>m->g0\<close> and
  calls \<open>schedule\<close> there with the goroutine that yields.
\<close>

definition gosched :: "build \<Rightarrow> state \<Rightarrow> stop option" where
  "gosched b s =
     (if m_locks (ms s (m_reg s)) \<noteq> 0 then Some (Throw ''gosched holding locks'')
      else if Some (g_reg s) = m_g0 (ms s (m_reg s)) then Some (Throw ''gosched of g0'')
      else case m_g0 (ms s (m_reg s)) of
             None \<Rightarrow> Some Fault
           | Some g0 \<Rightarrow> schedule b (Some (g_reg s)) (s\<lparr>g_reg := g0\<rparr>))"

subsection \<open>System calls\<close>

text \<open>\<open>runtime\<cdot>gosave\<close> stores the caller's stack pointer and program counter.\<close>

definition gosave :: "uintptr \<Rightarrow> uintptr \<Rightarrow> state \<Rightarrow> state" where
  "gosave sp pc s =
     upd_g (g_reg s) (\<lambda>x. x\<lparr>g_sched := \<lparr>gb_sp = sp, gb_pc = pc, gb_g = Some (g_reg s)\<rparr>\<rparr>) s"

text \<open>
  \<open>entersyscall\<close> in three parts: what it records in the goroutine for the
  garbage collector and the traceback (\<open>syscall_save\<close>), the fast path, and the
  path under the scheduler lock (\<open>entersyscall_slow\<close>).
\<close>

definition syscall_save :: "uintptr \<Rightarrow> uintptr \<Rightarrow> state \<Rightarrow> state" where
  "syscall_save sp pc s =
     (let g = g_reg s;
          s = gosave sp pc s;
          s = upd_g g (\<lambda>x. x\<lparr>g_gcsp := gb_sp (g_sched x)\<rparr>) s;
          s = upd_g g (\<lambda>x. x\<lparr>g_gcstack := g_stackbase x\<rparr>) s;
          s = upd_g g (\<lambda>x. x\<lparr>g_gcguard := g_stackguard x\<rparr>) s
      in upd_g g (\<lambda>x. x\<lparr>g_status := Gsyscall\<rparr>) s)"

definition entersyscall_slow :: "build \<Rightarrow> uintptr \<Rightarrow> uintptr \<Rightarrow> state \<Rightarrow> state result" where
  "entersyscall_slow b sp pc s =
     (let s = schedlock s;
          v = atomicload s
      in bind_r (if atomic_gwaiting v \<noteq> 0
                 then bind_r (matchmg b s) (\<lambda>s. Inr (atomicload s, s))
                 else Inr (v, s))
           (\<lambda>(v, s).
              let s = (if atomic_waitstop v \<noteq> 0 \<and> atomic_mcpu v \<le> atomic_mcpumax v
                       then emit (Notewakeup Stopped)
                              (snd (xadd (push_bit waitstopShift (- 1)) s))
                       else s);
                  s = gosave sp pc s
              in Inr (schedunlock s)))"

definition entersyscall :: "build \<Rightarrow> uintptr \<Rightarrow> uintptr \<Rightarrow> state \<Rightarrow> state result" where
  "entersyscall b sp pc s =
     (if predawn s \<noteq> 0 then Inr s
      else (let g = g_reg s;
                s = syscall_save sp pc s
            in if g_gcsp (gs s g) < g_gcguard (gs s g) - scast (StackGuard b)
                  \<or> g_gcstack (gs s g) < g_gcsp (gs s g)
               then Inl (Throw ''entersyscall'')
               else (let v = fst (xadd (push_bit mcpuShift (- 1)) s);
                         s = snd (xadd (push_bit mcpuShift (- 1)) s)
                     in if atomic_gwaiting v = 0
                           \<and> (atomic_waitstop v = 0 \<or> atomic_mcpu v > atomic_mcpumax v)
                        then Inr s
                        else entersyscall_slow b sp pc s)))"

text \<open>
  \<open>exitsyscall\<close> up to the point where it returns or leaves the processor in
  \<open>gosched\<close>.  When the goroutine runs again, \<open>exitsyscall_resumed\<close> is what is
  left to do.
\<close>

definition exitsyscall :: "build \<Rightarrow> state \<Rightarrow> state result option" where
  "exitsyscall b s =
     (if predawn s \<noteq> 0 then Some (Inr s)
      else (let v = fst (xadd (push_bit mcpuShift 1) s);
                s = snd (xadd (push_bit mcpuShift 1) s)
            in if m_profilehz (ms s (m_reg s)) = profilehz s
                  \<and> atomic_mcpu v \<le> atomic_mcpumax v
               then (let s = upd_g (g_reg s) (\<lambda>x. x\<lparr>g_status := Grunning\<rparr>) s
                     in Some (Inr (upd_g (g_reg s) (\<lambda>x. x\<lparr>g_gcstack := 0\<rparr>) s)))
               else (let s = upd_g (g_reg s) (\<lambda>x. x\<lparr>g_readyonstop := True\<rparr>) s
                     in case gosched b s of None \<Rightarrow> None | Some e \<Rightarrow> Some (Inl e))))"

definition exitsyscall_resumed :: "state \<Rightarrow> state" where
  "exitsyscall_resumed s = upd_g (g_reg s) (\<lambda>x. x\<lparr>g_gcstack := 0\<rparr>) s"

subsection \<open>The cap on running threads\<close>

text \<open>
  \<open>schedinit\<close>.  The value of the environment variable and \<open>runtime\<cdot>atoi\<close> come
  from outside proc.c: \<open>p\<close> is what \<open>runtime\<cdot>getenv("GOMAXPROCS")\<close> returns
  (\<open>None\<close> for \<open>nil\<close>) and \<open>atoi\<close> the parser.  The allocator, the arguments and
  the environment that it also sets up are not part of the state.
\<close>

definition schedinit :: "string option \<Rightarrow> (string \<Rightarrow> int32) \<Rightarrow> state \<Rightarrow> state" where
  "schedinit p atoi s =
     (let s = mcommoninit (m_reg s) s;
          s = s\<lparr>gomaxprocs := 1\<rparr>;
          s = (case p of
                 None \<Rightarrow> s
               | Some str \<Rightarrow>
                   (let n = atoi str
                    in if n \<noteq> 0
                       then (let n = (if maxgomaxprocs <s n then maxgomaxprocs else n)
                             in s\<lparr>gomaxprocs := n\<rparr>)
                       else s));
          s = setmcpumax (gomaxprocs s) s;
          s = s\<lparr>singleproc := (gomaxprocs s = 1)\<rparr>
      in s\<lparr>predawn := 1\<rparr>)"

text \<open>
  \<open>runtime\<cdot>gomaxprocsfunc\<close>.  The first component is \<open>ret\<close>, the value that every
  \<open>return\<close> of the function returns; the second is how the run ends: it returns
  in the state given, or it stops (a throw, or the yield in \<open>gosched\<close>, after
  which the function returns \<open>ret\<close> once the goroutine runs again).
\<close>

definition gomaxprocsfunc :: "build \<Rightarrow> int32 \<Rightarrow> state \<Rightarrow> int32 \<times> state result option" where
  "gomaxprocsfunc b n s =
     (let s = schedlock s;
          ret = gomaxprocs s;
          n = (if n \<le>s 0 then ret else n);
          n = (if maxgomaxprocs <s n then maxgomaxprocs else n);
          s = s\<lparr>gomaxprocs := n\<rparr>;
          s = (if 1 <s gomaxprocs s then s\<lparr>singleproc := False\<rparr> else s)
      in if gcwaiting s \<noteq> 0
         then (if atomic_mcpumax (atomic s) \<noteq> 1
               then (ret, Some (Inl (Throw ''invalid mcpumax during gc'')))
               else (ret, Some (Inr (schedunlock s))))
         else (let s = setmcpumax n s;
                   v = atomicload s
               in if atomic_mcpu v > n
                  then (let s = schedunlock s
                        in (ret, case gosched b s of None \<Rightarrow> None | Some e \<Rightarrow> Some (Inl e)))
                  else (ret, Some (bind_r (matchmg b s) (\<lambda>s. Inr (schedunlock s))))))"

text \<open>
  \<open>runtime\<cdot>starttheworld\<close> ends a collection: it clears \<open>gcwaiting\<close> and sets the
  mcpumax field back to \<open>gomaxprocs\<close>, under the scheduler lock.
\<close>

definition starttheworld :: "build \<Rightarrow> state \<Rightarrow> state result" where
  "starttheworld b s =
     (let s = schedlock s;
          s = s\<lparr>gcwaiting := 0\<rparr>;
          s = setmcpumax (gomaxprocs s) s
      in bind_r (matchmg b s) (\<lambda>s. Inr (schedunlock s)))"

subsection \<open>Growing the stack\<close>

text \<open>
  \<open>runtime\<cdot>newstack\<close> never returns: it ends in \<open>runtime\<cdot>gogocall\<close>.  \<open>stk0\<close> is the
  address that \<open>runtime\<cdot>stackalloc\<close> hands out when it is called; the call is
  recorded with its argument.  The bytes that \<open>runtime\<cdot>memmove\<close> copies are not
  part of the state.  The size of a pointer is a power of two, so the test of
  the remainder of \<open>argsize\<close> does not depend on the sign of the division.
\<close>

definition newstack :: "build \<Rightarrow> uintptr \<Rightarrow> state \<Rightarrow> stop" where
  "newstack b stk0 s =
     (let m = ms s (m_reg s);
          framesize = m_moreframesize m;
          argsize = m_moreargsize m
      in case m_curg m of
        None \<Rightarrow> Fault
      | Some g1 \<Rightarrow>
          if gb_sp (m_morebuf m) < g_stackguard (gs s g1) - scast (StackGuard b)
          then Throw ''runtime: split stack overflow''
          else if unat argsize mod sizeof_uintptr b \<noteq> 0
          then Throw ''runtime: stack split argsize''
          else
            (let reflectcall = (framesize = 1);
                 framesize = (if reflectcall then 0 else framesize);
                 (s, top, stk, free) =
                   (if reflectcall
                       \<and> gb_sp (m_morebuf m) - sizeof_Stktop b - scast argsize - 32
                           > g_stackguard (gs s g1)
                    then (s, gb_sp (m_morebuf m) - sizeof_Stktop b,
                          g_stackguard (gs s g1) - scast (StackGuard b), 0)
                    else (let framesize = framesize + argsize;
                              framesize = framesize + StackExtra b;
                              framesize = (if framesize <s StackMin b then StackMin b
                                           else framesize);
                              framesize = framesize + StackSystem b
                          in (emit (Stackalloc framesize) s,
                              stk0 + scast framesize - sizeof_Stktop b, stk0,
                              scast framesize)));
                 hdr = \<lparr>st_stackguard = g_stackguard (gs s g1),
                        st_stackbase = g_stackbase (gs s g1),
                        st_gobuf = m_morebuf m,
                        st_argsize = argsize,
                        st_argp = m_moreargp m,
                        st_free = free,
                        st_panic = g_ispanic (gs s g1)\<rparr>;
                 s = s\<lparr>stktops := (stktops s)(top := hdr)\<rparr>;
                 s = upd_g g1 (\<lambda>x. x\<lparr>g_ispanic := False\<rparr>) s;
                 s = upd_g g1 (\<lambda>x. x\<lparr>g_stackbase := top\<rparr>) s;
                 s = upd_g g1 (\<lambda>x. x\<lparr>g_stackguard := stk + scast (StackGuard b)\<rparr>) s;
                 sp = top;
                 sp = (if 0 <s argsize then sp - scast argsize else sp);
                 sp = (if thechar b = CHR ''5'' then sp - of_nat (sizeof_uintptr b) else sp);
                 label = \<lparr>gb_sp = sp, gb_pc = lessstack_pc b, gb_g = m_curg m\<rparr>
             in Gogocall s label (m_morepc m)))"

subsection \<open>Deferred calls\<close>

text \<open>
  \<open>runtime\<cdot>deferproc\<close>.  \<open>fn_addr\<close> is the address of the parameter \<open>fn\<close> in the
  caller's frame, \<open>callerpc\<close> what \<open>runtime\<cdot>getcallerpc\<close> returns and \<open>peek a n\<close> the
  \<open>n\<close> bytes of memory at the address \<open>a\<close>.  The record comes zeroed from
  \<open>runtime\<cdot>malloc\<close>.  The result is the value returned with the state after.
\<close>

definition new_defer ::
  "build \<Rightarrow> int32 \<Rightarrow> uintptr \<Rightarrow> uintptr \<Rightarrow> uintptr \<Rightarrow> (uintptr \<Rightarrow> nat \<Rightarrow> 8 word list) \<Rightarrow> Defer"
where
  "new_defer b siz fn fn_addr callerpc peek =
     (let argp = (if thechar b = CHR ''5'' then fn_addr + 2 * of_nat (sizeof_uintptr b)
                  else fn_addr + 1 * of_nat (sizeof_uintptr b))
      in \<lparr>d_siz = siz, d_nofree = False, d_argp = argp, d_pc = callerpc, d_fn = fn,
          d_args = peek argp (unat siz)\<rparr>)"

definition deferproc ::
  "build \<Rightarrow> int32 \<Rightarrow> uintptr \<Rightarrow> uintptr \<Rightarrow> uintptr \<Rightarrow> (uintptr \<Rightarrow> nat \<Rightarrow> 8 word list)
     \<Rightarrow> state \<Rightarrow> uintptr \<times> state"
where
  "deferproc b siz fn fn_addr callerpc peek s =
     (let d = new_defer b siz fn fn_addr callerpc peek
      in (0, upd_g (g_reg s) (\<lambda>x. x\<lparr>g_defer := d # g_defer x\<rparr>) s))"

text \<open>
  \<open>rundefer\<close>, the drain of \<open>runtime\<cdot>Goexit\<close>.  \<open>reflect\<cdot>call\<close> runs code from
  outside proc.c: the call is recorded with the function and its arguments.
  \<open>runtime\<cdot>free\<close> gives the record back to the allocator, which is not part of
  the state.
\<close>

function rundefer :: "state \<Rightarrow> state" where
  "rundefer s =
     (case g_defer (gs s (g_reg s)) of
        [] \<Rightarrow> s
      | d # link \<Rightarrow>
          (let s' = upd_g (g_reg s) (\<lambda>x. x\<lparr>g_defer := link\<rparr>) s;
               s' = emit (Reflect_call (d_fn d) (d_args d) (d_siz d)) s'
           in rundefer s'))"
  by pat_completeness auto
termination
  by (relation "measure (\<lambda>s. length (g_defer (gs s (g_reg s))))")
    (auto simp: upd_g_def emit_def)

declare rundefer.simps [simp del]

text \<open>
  \<open>runtime\<cdot>goexit\<close> and \<open>runtime\<cdot>Goexit\<close>: the goroutine ends, in the second case
  after the drain of its deferred calls.
\<close>

definition goexit :: "build \<Rightarrow> state \<Rightarrow> stop option" where
  "goexit b s = gosched b (upd_g (g_reg s) (\<lambda>x. x\<lparr>g_status := Gmoribund\<rparr>) s)"

definition Goexit :: "build \<Rightarrow> state \<Rightarrow> stop option" where
  "Goexit b s = goexit b (rundefer s)"

text \<open>
  A goroutine that defers the calls \<open>cs\<close> one after the other; a call is the
  size of its arguments, the function, the address of the parameter \<open>fn\<close> and
  the caller's program counter.
\<close>

fun defer_all ::
  "build \<Rightarrow> (uintptr \<Rightarrow> nat \<Rightarrow> 8 word list) \<Rightarrow> (int32 \<times> uintptr \<times> uintptr \<times> uintptr) list
     \<Rightarrow> state \<Rightarrow> state"
where
  "defer_all b peek [] s = s"
| "defer_all b peek ((siz, fn, fn_addr, callerpc) # cs) s =
     defer_all b peek cs (snd (deferproc b siz fn fn_addr callerpc peek s))"

subsection \<open>Reading the end of a run\<close>

definition stop_state :: "stop \<Rightarrow> state option" where
  "stop_state e =
     (case e of Parked s \<Rightarrow> Some s | Gogo s c \<Rightarrow> Some s | Gogocall s c f \<Rightarrow> Some s
      | _ \<Rightarrow> None)"


definition stop_trace :: "stop \<Rightarrow> event list" where
  "stop_trace e = (case stop_state e of Some s \<Rightarrow> trace s | None \<Rightarrow> [])"

text \<open>The \<open>free\<close> field of the header on top of the stack of \<open>g\<close>, where a run ends.\<close>

definition top_free :: "nat \<Rightarrow> stop \<Rightarrow> uintptr option" where
  "top_free g e =
     (case stop_state e of
        Some s \<Rightarrow> Some (st_free (stktops s (g_stackbase (gs s g))))
      | None \<Rightarrow> None)"

text \<open>
  The frame size that \<open>newstack\<close> works with (the request 1, the mark of
  \<open>reflect\<cdot>call\<close>, stands for 0), and its test for installing the header on the
  current segment instead of allocating one.
\<close>

definition newstack_frame :: "M \<Rightarrow> int32" where
  "newstack_frame m = (if m_moreframesize m = 1 then 0 else m_moreframesize m)"

definition newstack_inplace :: "build \<Rightarrow> state \<Rightarrow> nat \<Rightarrow> bool" where
  "newstack_inplace b s g1 =
     (let m = ms s (m_reg s)
      in m_moreframesize m = 1
         \<and> gb_sp (m_morebuf m) - sizeof_Stktop b - scast (m_moreargsize m) - 32
             > g_stackguard (gs s g1))"

subsection \<open>Invariants of the run queue\<close>

text \<open>
  The gwaiting bit of the atomic word says that \<open>gwait\<close> is positive.
\<close>

definition gwaiting_inv :: "state \<Rightarrow> bool" where
  "gwaiting_inv s = ((atomic_gwaiting (atomic s) = 1) = (0 <s gwait s))"

text \<open>
  \<open>gchain h p xs\<close>: following \<open>schedlink\<close> from \<open>p\<close> visits the goroutines \<open>xs\<close>
  and ends at \<open>nil\<close>.  \<open>runq s xs\<close>: the run queue of \<open>s\<close> holds \<open>xs\<close>, the head
  first, \<open>gtail\<close> is its last element and \<open>gwait\<close> its length.
\<close>

fun gchain :: "(nat \<Rightarrow> G) \<Rightarrow> ptr \<Rightarrow> nat list \<Rightarrow> bool" where
  "gchain h p [] = (p = None)"
| "gchain h p (x # xs) = (p = Some x \<and> gchain h (g_schedlink (h x)) xs)"

definition runq :: "state \<Rightarrow> nat list \<Rightarrow> bool" where
  "runq s xs = (gchain (gs s) (ghead s) xs \<and> distinct xs
     \<and> (xs \<noteq> [] \<longrightarrow> gtail s = Some (last xs))
     \<and> gwait s = of_nat (length xs) \<and> length xs < 2147483647)"

subsection \<open>States for the examples\<close>

text \<open>The goroutine at address 1 alone on the run queue.\<close>

definition q1 :: state where
  "q1 = zero_state\<lparr>gs := (gs zero_state)(1 := zero_G\<lparr>g_status := Grunnable\<rparr>),
     ghead := Some 1, gtail := Some 1, gwait := 1, atomic := 2147483648\<rparr>"

text \<open>A build for the examples, with a pointer of 8 bytes.\<close>

definition build0 :: build where
  "build0 = \<lparr>StackMin = 4096, StackExtra = 1024, StackSystem = 0, StackGuard = 256,
     sizeof_Stktop = 72, sizeof_uintptr = 8, thechar = CHR ''6'', Windows = False,
     goexit_pc = 4096, lessstack_pc = 8192\<rparr>"


text \<open>
  The goroutine at address 1 runs on the thread at address 0 and asks for a
  frame of 128 bytes with 16 bytes of arguments.
\<close>

definition ns0 :: state where
  "ns0 = zero_state\<lparr>
     gs := (gs zero_state)(1 := zero_G\<lparr>g_status := Grunning, g_stackguard := 24832,
             g_stackbase := 28672, g_m := Some 0\<rparr>),
     ms := (ms zero_state)(0 := zero_M\<lparr>m_curg := Some 1, m_moreframesize := 128,
             m_moreargsize := 16,
             m_morebuf := \<lparr>gb_sp = 24704, gb_pc = 12288, gb_g = Some 1\<rparr>,
             m_morepc := 12544\<rparr>)\<rparr>"

subsection \<open>Critical sections of hand-offs\<close>

text \<open>
  A critical section that hands goroutines to threads: \<open>schedlock\<close>, then
  \<open>mnextg m g\<close> for each pair of \<open>hs\<close> in turn, then \<open>schedunlock\<close>.
\<close>

fun handoffs :: "(nat \<times> nat) list \<Rightarrow> state \<Rightarrow> state" where
  "handoffs [] s = s"
| "handoffs ((m, g) # hs) s = handoffs hs (mnextg m g s)"

definition critical_section :: "(nat \<times> nat) list \<Rightarrow> state \<Rightarrow> state" where
  "critical_section hs s = schedunlock (handoffs hs (schedlock s))"


text \<open>
  \<open>waiting s m\<close>: the thread \<open>m\<close> waits for a goroutine (\<open>m->waitnextg\<close> is set).
  \<open>waiters hs w\<close>: the threads that the hand-offs \<open>hs\<close> find waiting, in order,
  when \<open>w\<close> tells which threads wait at the start; a hand-off ends the wait.
  \<open>pending s\<close>: the thread registered in \<open>mwakeup\<close>, if any.
\<close>

fun waiters :: "(nat \<times> nat) list \<Rightarrow> (nat \<Rightarrow> bool) \<Rightarrow> nat list" where
  "waiters [] w = []"
| "waiters ((m, g) # hs) w = (if w m then m # waiters hs (w(m := False)) else waiters hs w)"

definition waiting :: "state \<Rightarrow> nat \<Rightarrow> bool" where
  "waiting s m = (m_waitnextg (ms s m) \<noteq> 0)"

definition pending :: "state \<Rightarrow> nat list" where
  "pending s = (case mwakeup s of None \<Rightarrow> [] | Some w \<Rightarrow> [w])"

definition wake :: "nat \<Rightarrow> event" where
  "wake m = Notewakeup (Havenextg m)"


text \<open>Two threads, at the addresses 1 and 2, wait for a goroutine.\<close>

definition w2 :: state where
  "w2 = zero_state\<lparr>ms := (ms zero_state)(1 := zero_M\<lparr>m_waitnextg := 1\<rparr>,
                                           2 := zero_M\<lparr>m_waitnextg := 1\<rparr>)\<rparr>"

subsection \<open>Stack spines and the end of a round\<close>


definition restacked :: "nat \<Rightarrow> state \<Rightarrow> state \<Rightarrow> bool" where
  "restacked gp s s' =
     (\<exists>sb sg tr. s' = s\<lparr>gs := (gs s)(gp := (gs s gp)\<lparr>g_stackbase := sb, g_stackguard := sg\<rparr>),
                          trace := tr\<rparr>)"






definition sys_ex :: "uint32 \<Rightarrow> state" where
  "sys_ex a = zero_state\<lparr>
     gs := (gs zero_state)
       (1 := zero_G\<lparr>g_status := Grunning, g_m := Some 0, g_stackguard := 24832,
                    g_stackbase := 28672\<rparr>,
        2 := zero_G\<lparr>g_status := Grunnable\<rparr>),
     ms := (ms zero_state)(0 := zero_M\<lparr>m_g0 := Some 5, m_curg := Some 1\<rparr>),
     g_reg := 1, g_brk := 10, m_brk := 10, atomic := a, grunning := 1, gcount := 2\<rparr>"

definition sys_ex_queued :: state where
  "sys_ex_queued = (sys_ex 3221258241)\<lparr>ghead := Some 2, gtail := Some 2, gwait := 1\<rparr>"

subsection \<open>A goroutine that yields out of a system call\<close>

text \<open>
  \<open>yielded g g0 s\<close> is the state in which \<open>schedule\<close>, entered from \<open>gosched\<close> on the
  stack of \<open>g0\<close> for a goroutine \<open>g\<close> in \<open>Gsyscall\<close> with \<open>readyonstop\<close> set, calls
  \<open>gput\<close> from \<open>readylocked\<close>: the lock taken, \<open>g\<close> off its thread, \<open>grunning\<close> and the
  atomic word one less, \<open>readyonstop\<close> cleared and the status \<open>Grunnable\<close>.  \<open>exit_ex a\<close>
  is a goroutine 1 inside a system call on the thread 0, the atomic word \<open>a\<close>.
\<close>

definition yielded :: "nat \<Rightarrow> nat \<Rightarrow> state \<Rightarrow> state" where
  "yielded g g0 s =
     (upd_g g (\<lambda>x. x\<lparr>g_m := None, g_readyonstop := False, g_status := Grunnable\<rparr>) s)
       \<lparr>g_reg := g0, grunning := grunning s - 1, atomic := atomic s - 1,
        trace := trace s @ [Lock]\<rparr>"

definition exit_ex :: "uint32 \<Rightarrow> state" where
  "exit_ex a = zero_state\<lparr>
     gs := (gs zero_state)(1 := zero_G\<lparr>g_status := Gsyscall, g_m := Some 0\<rparr>),
     ms := (ms zero_state)(0 := zero_M\<lparr>m_g0 := Some 5, m_curg := Some 1\<rparr>),
     g_reg := 1, atomic := a, grunning := 2, gcount := 2\<rparr>"

subsection \<open>The cap and what keeps it\<close>

text \<open>
  \<open>cap_fields s\<close> is the pair of \<open>gomaxprocs\<close> and the mcpumax field of the atomic word.
  \<open>stop_keeps c e\<close>: the state left behind where a run ends, if there is one, has the cap
  fields \<open>c\<close>; \<open>keeps p c r\<close>: so has the state of the result \<open>r\<close>, or the state left
  behind where the run ends.  \<open>clamp_procs cur n\<close> is the value that \<open>gomaxprocsfunc\<close>
  stores for the argument \<open>n\<close> when \<open>gomaxprocs\<close> is \<open>cur\<close>.  \<open>cap_ex\<close>: a cap of 2, one
  goroutine running and the goroutine 2 on the run queue.
\<close>

definition cap_fields :: "state \<Rightarrow> int32 \<times> uint32" where
  "cap_fields s = (gomaxprocs s, atomic_mcpumax (atomic s))"

definition stop_keeps :: "int32 \<times> uint32 \<Rightarrow> stop \<Rightarrow> bool" where
  "stop_keeps c e = (case stop_state e of None \<Rightarrow> True | Some s \<Rightarrow> cap_fields s = c)"

definition keeps :: "('a \<Rightarrow> state) \<Rightarrow> int32 \<times> uint32 \<Rightarrow> 'a result \<Rightarrow> bool" where
  "keeps p c r = (case r of Inl e \<Rightarrow> stop_keeps c e | Inr x \<Rightarrow> cap_fields (p x) = c)"

definition clamp_procs :: "int32 \<Rightarrow> int32 \<Rightarrow> int32" where
  "clamp_procs cur n =
     (let n = (if n \<le>s 0 then cur else n)
      in if maxgomaxprocs <s n then maxgomaxprocs else n)"

definition cap_ex :: state where
  "cap_ex = zero_state\<lparr>
     gs := (gs zero_state)(1 := zero_G\<lparr>g_status := Grunning, g_m := Some 0\<rparr>,
                           2 := zero_G\<lparr>g_status := Grunnable\<rparr>),
     ms := (ms zero_state)(0 := zero_M\<lparr>m_g0 := Some 5, m_curg := Some 1\<rparr>),
     g_reg := 1, g_brk := 10, m_brk := 10, gomaxprocs := 2, atomic := 2147549185,
     ghead := Some 2, gtail := Some 2, gwait := 1, grunning := 1, gcount := 2\<rparr>"

section \<open>Properties\<close>


subsection \<open>canaddmcpu\<close>

text \<open>
  Claim C4.  For every value of the atomic word: when mcpu is below mcpumax,
  \<open>canaddmcpu\<close> reports success and the word is the old one plus one, which
  raises the mcpu field by exactly one and leaves mcpumax, waitstop and gwaiting
  as they were; when mcpu is at or above mcpumax, it reports failure and the
  state, the word with it, is unchanged.
\<close>

theorem canaddmcpu_spec:
  "(atomic_mcpu (atomic s) < atomic_mcpumax (atomic s) \<longrightarrow>
      canaddmcpu s = (True, s\<lparr>atomic := atomic s + 1\<rparr>)
      \<and> unat (atomic_mcpu (atomic (snd (canaddmcpu s)))) = unat (atomic_mcpu (atomic s)) + 1
      \<and> atomic_mcpumax (atomic (snd (canaddmcpu s))) = atomic_mcpumax (atomic s)
      \<and> atomic_waitstop (atomic (snd (canaddmcpu s))) = atomic_waitstop (atomic s)
      \<and> atomic_gwaiting (atomic (snd (canaddmcpu s))) = atomic_gwaiting (atomic s))
   \<and> (atomic_mcpu (atomic s) \<ge> atomic_mcpumax (atomic s) \<longrightarrow> canaddmcpu s = (False, s))"
  by (auto simp: canaddmcpu_eq fields_succ not_le)

theorem canaddmcpu_spec_witness:
  "atomic_mcpu 65537 < atomic_mcpumax 65537
   \<and> canaddmcpu (zero_state\<lparr>atomic := 65537\<rparr>) = (True, zero_state\<lparr>atomic := 65538\<rparr>)
   \<and> atomic_mcpu 65538 = 2
   \<and> atomic_mcpumax 65538 \<le> atomic_mcpu 65538
   \<and> canaddmcpu (zero_state\<lparr>atomic := 65538\<rparr>) = (False, zero_state\<lparr>atomic := 65538\<rparr>)"
  using canaddmcpu_spec[of "zero_state\<lparr>atomic := 65537\<rparr>"]
    canaddmcpu_spec[of "zero_state\<lparr>atomic := 65538\<rparr>"]
  by (simp add: atomic_mcpu_def atomic_mcpumax_def shift_defs)

subsection \<open>gput and gget\<close>

lemma sint_bounds32: "- 2147483648 \<le> sint (x::32 word)" "sint (x::32 word) < 2147483648"
  using sint_range_size[of x] by (simp_all add: word_size)

lemma sint_succ32: "sint (x::32 word) < 2147483647 \<Longrightarrow> sint (x + 1) = sint x + 1"
  using sint_bounds32[of x]
  by (simp add: sint_word_ariths signed_take_bit_int_eq_self)

lemma sint_pred32: "- 2147483648 < sint (x::32 word) \<Longrightarrow> sint (x - 1) = sint x - 1"
  using sint_bounds32[of x]
  by (simp add: sint_word_ariths signed_take_bit_int_eq_self)

lemma sint_eq0: "(sint (x::32 word) = 0) = (x = 0)"
  by (rule signed_eq_0_iff)

lemma gwaiting_flip_word:
  "(atomic_gwaiting (v + 2147483648) = 1) = (atomic_gwaiting v \<noteq> 1)"
proof -
  have "unat (atomic_gwaiting v) < 2" by (rule fields_bounds)
  hence "(unat (atomic_gwaiting (v + 2147483648)) = 1) = (unat (atomic_gwaiting v) \<noteq> 1)"
    by (auto simp: fields_flip)
  thus ?thesis by (simp add: word_eq_iff_unsigned[where ?'a = nat])
qed

lemma gget_gwaiting_inv:
  assumes "gwaiting_inv s" and "- 2147483648 < sint (gwait s)"
  shows "gwaiting_inv (snd (gget s))"
proof (cases "ghead s")
  case None
  thus ?thesis using assms(1)
    by (simp add: gget_def gwaiting_inv_def upd_m_def split: option.splits)
next
  case (Some g)
  have p: "sint (gwait s - 1) = sint (gwait s) - 1" using assms(2) by (rule sint_pred32)
  show ?thesis
  proof (cases "gwait s - 1 = 0")
    case True
    hence "sint (gwait s) = 1" using p by simp
    hence "atomic_gwaiting (atomic s) = 1" using assms(1) by (simp add: gwaiting_inv_def word_sless_alt)
    thus ?thesis using Some True
      by (simp add: gget_def gwaiting_inv_def Let_def xadd_def not_mask_gwaitingShift gwaiting_flip_word)
  next
    case False
    hence "sint (gwait s - 1) \<noteq> 0" by (simp add: sint_eq0)
    hence "(0 < sint (gwait s - 1)) = (0 < sint (gwait s))" using p by linarith
    thus ?thesis using Some False assms(1)
      by (simp add: gget_def gwaiting_inv_def Let_def word_sless_alt)
  qed
qed


lemma pow_gwaitingShift: "2 ^ gwaitingShift = (2147483648 :: 32 word)"
  by (simp add: shift_defs)
lemma pow_waitstopShift: "2 ^ waitstopShift = (1073741824 :: 32 word)"
  by (simp add: shift_defs)
lemma not_mask_mcpuShift: "NOT (mask mcpuShift) = (- 1 :: 32 word)"
  by (simp add: shift_defs)
lemma pow_mcpuShift: "2 ^ mcpuShift = (1 :: 32 word)"
  by (simp add: shift_defs)
lemmas delta_simps = not_mask_gwaitingShift not_mask_waitstopShift not_mask_mcpuShift
  pow_gwaitingShift pow_waitstopShift pow_mcpuShift

lemma canaddmcpu_gwaiting_inv: "gwaiting_inv (snd (canaddmcpu s)) = gwaiting_inv s"
  by (simp add: canaddmcpu_eq gwaiting_inv_def fields_succ not_le)

lemma mnextg_gwaiting_inv: "gwaiting_inv (mnextg m g s) = gwaiting_inv s"
  by (simp add: gwaiting_inv_def mnextg_def Let_def upd_m_def emit_def split: option.splits)

lemma canaddmcpu_gwait: "gwait (snd (canaddmcpu s)) = gwait s"
  by (simp add: canaddmcpu_eq)

lemma gput_gwaiting_inv:
  assumes "gwaiting_inv s" and "sint (gwait s) < 2147483647" and "gput g s = Inr s'"
  shows "gwaiting_inv s'"
proof -
  define s1 where "s1 = (if g_lockedm (gs s g) \<noteq> None then snd (canaddmcpu s) else s)"
  have i1: "gwaiting_inv s1" using assms(1) by (simp add: s1_def canaddmcpu_gwaiting_inv)
  have b1: "sint (gwait s1) < 2147483647" using assms(2) by (simp add: s1_def canaddmcpu_gwait)
  have p: "sint (gwait s1 + 1) = sint (gwait s1) + 1" using b1 by (rule sint_succ32)
  show ?thesis
  proof (cases "g_lockedm (gs s g) \<noteq> None \<and> fst (canaddmcpu s)")
    case True
    hence "s' = mnextg (the (g_lockedm (gs s g))) g s1"
      using assms(3) by (simp add: gput_def s1_def Let_def)
    thus ?thesis using i1 by (simp add: mnextg_gwaiting_inv)
  next
    case False
    show ?thesis
    proof (cases "g_idlem (gs s1 g)")
      case (Some im)
      hence "s' = upd_m im (\<lambda>x. x\<lparr>m_idleg := Some g\<rparr>) s1"
        using assms(3) False by (auto simp: gput_def s1_def Let_def split: if_splits)
      thus ?thesis using i1 by (simp add: gwaiting_inv_def upd_m_def)
    next
      case None
      show ?thesis
      proof (cases "gwait s1 = 0")
        case True
        hence g0: "atomic_gwaiting (atomic s1) \<noteq> 1" using i1 by (simp add: gwaiting_inv_def)
        have "atomic s' = atomic s1 + 2147483648 \<and> gwait s' = gwait s1 + 1"
          using assms(3) False None True
          by (auto simp: gput_def s1_def Let_def upd_g_def xadd_def delta_simps split: if_splits)
        thus ?thesis using g0 True by (simp add: gwaiting_inv_def gwaiting_flip_word word_sless_alt)
      next
        case False2: False
        have e: "atomic s' = atomic s1 \<and> gwait s' = gwait s1 + 1"
          using assms(3) False None False2
          by (auto simp: gput_def s1_def Let_def upd_g_def xadd_def delta_simps split: if_splits)
        have "sint (gwait s1) \<noteq> 0" using False2 by (simp add: sint_eq0)
        hence "(0 < sint (gwait s1 + 1)) = (0 < sint (gwait s1))"
          using p by linarith
        thus ?thesis using e i1 by (simp add: gwaiting_inv_def word_sless_alt)
      qed
    qed
  qed
qed


lemma gchain_upd_notin:
  "u \<notin> set xs \<Longrightarrow> gchain (h(u := y)) p xs = gchain h p xs"
  by (induction xs arbitrary: p) auto

lemma gchain_snoc:
  "gchain h p xs \<Longrightarrow> distinct xs \<Longrightarrow> xs \<noteq> [] \<Longrightarrow> g \<notin> set xs \<Longrightarrow> g_schedlink (h g) = None
   \<Longrightarrow> gchain (h(last xs := (h (last xs))\<lparr>g_schedlink := Some g\<rparr>)) p (xs @ [g])"
proof (induction xs arbitrary: p)
  case Nil
  then show ?case by simp
next
  case (Cons x xs)
  show ?case
  proof (cases "xs = []")
    case True
    then show ?thesis using Cons.prems by auto
  next
    case False
    hence "last (x # xs) = last xs" by simp
    moreover have "last xs \<noteq> x" using Cons.prems(2) False by auto
    ultimately show ?thesis using Cons.prems Cons.IH[of "g_schedlink (h x)"] False by auto
  qed
qed

lemma of_nat_eq0_32: "n < 2147483647 \<Longrightarrow> ((of_nat n :: 32 word) = 0) = (n = 0)"
  by (simp add: of_nat_0 word_of_nat_eq_0_iff) (auto dest: dvd_imp_le)

lemma gput_fifo:
  assumes q: "runq s xs" and g: "g \<notin> set xs"
    and path: "g_lockedm (gs s g) = None \<or> atomic_mcpumax (atomic s) \<le> atomic_mcpu (atomic s)"
    and idle: "g_idlem (gs s g) = None"
    and len: "Suc (length xs) < 2147483647"
  shows "\<exists>s'. gput g s = Inr s' \<and> runq s' (xs @ [g])
     \<and> atomic s' = (if xs = [] then atomic s + 2147483648 else atomic s)"
proof -
  have c: "g_lockedm (gs s g) \<noteq> None \<Longrightarrow> canaddmcpu s = (False, s)"
    using path by (auto simp: canaddmcpu_eq)
  have z: "(gwait s = 0) = (xs = [])" using q by (simp add: runq_def of_nat_eq0_32)
  show ?thesis
  proof (cases xs)
    case Nil
    then show ?thesis using q c idle
      by (cases "g_lockedm (gs s g)")
        (auto simp: gput_def Let_def runq_def upd_g_def xadd_def delta_simps)
  next
    case (Cons y ys)
    let ?h = "(gs s)(g := (gs s g)\<lparr>g_schedlink := None\<rparr>)"
    have t: "gtail s = Some (last xs)" and hd: "ghead s = Some y" using q Cons by (auto simp: runq_def)
    have ne: "last xs \<noteq> g" using g Cons by (metis last_in_set list.distinct(1))
    have "gchain ?h (ghead s) xs" using q g by (simp add: runq_def gchain_upd_notin)
    hence ch: "gchain (?h(last xs := (?h (last xs))\<lparr>g_schedlink := Some g\<rparr>)) (ghead s) (xs @ [g])"
      using q g Cons by (intro gchain_snoc) (auto simp: runq_def)
    have nz: "gwait s \<noteq> 0" using z Cons by simp
    show ?thesis using q c idle t hd ne ch nz g len Cons
      by (cases "g_lockedm (gs s g)")
        (auto simp: gput_def Let_def runq_def upd_g_def xadd_def delta_simps)
  qed
qed

lemma gget_fifo:
  assumes q: "runq s (x # xs)"
  shows "fst (gget s) = Some x \<and> runq (snd (gget s)) xs \<and> gs (snd (gget s)) = gs s
     \<and> atomic (snd (gget s)) = (if xs = [] then atomic s + 2147483648 else atomic s)"
proof -
  have hd: "ghead s = Some x" and ch: "gchain (gs s) (g_schedlink (gs s x)) xs"
    and w: "gwait s - 1 = of_nat (length xs)"
    using q by (auto simp: runq_def)
  have z: "(gwait s - 1 = 0) = (xs = [])" using q w by (simp add: runq_def of_nat_eq0_32)
  have e: "(g_schedlink (gs s x) = None) = (xs = [])" using ch by (cases xs) auto
  show ?thesis using q hd ch w z e
    by (auto simp: gget_def Let_def runq_def xadd_def delta_simps)
qed

lemma sint_of_nat32: "n < 2147483648 \<Longrightarrow> sint (of_nat n :: 32 word) = int n"
  by (simp add: signed_of_nat signed_take_bit_int_eq_self)

lemma runq_sint: "runq s xs \<Longrightarrow> sint (gwait s) = int (length xs)"
  by (simp add: runq_def sint_of_nat32)

lemma gwaiting_01: "(atomic_gwaiting v = 0) = (atomic_gwaiting v \<noteq> 1)"
proof -
  have "unat (atomic_gwaiting v) < 2" by (rule fields_bounds)
  hence "(unat (atomic_gwaiting v) = 0) = (unat (atomic_gwaiting v) \<noteq> 1)" by auto
  thus ?thesis by (simp add: word_eq_iff_unsigned[where ?'a = nat])
qed

lemma gput_fifo_gwaiting:
  assumes i: "gwaiting_inv s" and rq: "runq s xs" and g: "g \<notin> set xs"
    and ln: "Suc (length xs) < 2147483647"
    and path: "g_lockedm (gs s g) = None \<or> atomic_mcpumax (atomic s) \<le> atomic_mcpu (atomic s)"
    and idle: "g_idlem (gs s g) = None"
  shows "\<exists>s'. gput g s = Inr s' \<and> runq s' (xs @ [g]) \<and> gwaiting_inv s'
            \<and> atomic_gwaiting (atomic s') = 1
            \<and> atomic s' = (if xs = [] then atomic s + 2147483648 else atomic s)"
proof -
  obtain s' where p: "gput g s = Inr s'" and q: "runq s' (xs @ [g])"
    and e: "atomic s' = (if xs = [] then atomic s + 2147483648 else atomic s)"
    using gput_fifo[OF rq g path idle ln] by blast
  have "sint (gwait s) < 2147483647" using ln by (simp add: runq_sint[OF rq])
  hence i': "gwaiting_inv s'" using i p by (intro gput_gwaiting_inv[of s g s'])
  have "0 < sint (gwait s')" by (simp add: runq_sint[OF q])
  hence "atomic_gwaiting (atomic s') = 1" using i' by (simp add: gwaiting_inv_def word_sless_alt)
  thus ?thesis using p q i' e by blast
qed

lemma gget_fifo_gwaiting:
  assumes i: "gwaiting_inv s" and rq: "runq s xs" and ne: "xs \<noteq> []"
  shows "fst (gget s) = Some (hd xs) \<and> runq (snd (gget s)) (tl xs)
        \<and> gwaiting_inv (snd (gget s))
        \<and> (atomic_gwaiting (atomic (snd (gget s))) = 0) = (tl xs = [])
        \<and> atomic (snd (gget s)) = (if tl xs = [] then atomic s + 2147483648 else atomic s)"
proof -
  obtain x ys where xs: "xs = x # ys" using ne by (cases xs) auto
  note f = gget_fifo[of s x ys]
  have b: "- 2147483648 < sint (gwait s)" by (simp add: runq_sint[OF rq])
  have i': "gwaiting_inv (snd (gget s))" using i b by (rule gget_gwaiting_inv)
  have "runq (snd (gget s)) ys" using f rq xs by simp
  hence "sint (gwait (snd (gget s))) = int (length ys)" by (rule runq_sint)
  hence "(0 < sint (gwait (snd (gget s)))) = (ys \<noteq> [])" by simp
  hence "(atomic_gwaiting (atomic (snd (gget s))) = 0) = (ys = [])"
    using i' by (simp add: gwaiting_inv_def word_sless_alt gwaiting_01)
  thus ?thesis using f rq xs i' by simp
qed


text \<open>
  Claim C1.  The run-queue mutators keep the invariant that the gwaiting bit is
  set exactly when \<open>gwait\<close> is positive: from a state where it holds, it holds
  after \<open>gput\<close>, whichever way \<open>gput\<close> takes, and after \<open>gget\<close>, as long as the
  \<open>int32\<close> counter \<open>gwait\<close> does not overflow (signed overflow is not defined in
  C).  On a well-formed queue \<open>xs\<close>, a \<open>gput\<close> that takes the FIFO path appends
  the goroutine and changes the word exactly when the queue was empty, by
  setting the gwaiting bit; \<open>gget\<close> pops the head and changes the word exactly
  when the queue becomes empty, by clearing the bit.
\<close>

theorem gput_gget_gwaiting:
  "gwaiting_inv s \<longrightarrow>
     (sint (gwait s) < 2147483647 \<longrightarrow> (\<forall>s'. gput g s = Inr s' \<longrightarrow> gwaiting_inv s'))
   \<and> (- 2147483648 < sint (gwait s) \<longrightarrow> gwaiting_inv (snd (gget s)))
   \<and> (runq s xs \<and> g \<notin> set xs \<and> Suc (length xs) < 2147483647
        \<and> (g_lockedm (gs s g) = None \<or> atomic_mcpumax (atomic s) \<le> atomic_mcpu (atomic s))
        \<and> g_idlem (gs s g) = None \<longrightarrow>
        (\<exists>s'. gput g s = Inr s' \<and> runq s' (xs @ [g]) \<and> gwaiting_inv s'
            \<and> atomic_gwaiting (atomic s') = 1
            \<and> atomic s' = (if xs = [] then atomic s + 2147483648 else atomic s)))
   \<and> (runq s xs \<and> xs \<noteq> [] \<longrightarrow>
        fst (gget s) = Some (hd xs) \<and> runq (snd (gget s)) (tl xs)
        \<and> gwaiting_inv (snd (gget s))
        \<and> (atomic_gwaiting (atomic (snd (gget s))) = 0) = (tl xs = [])
        \<and> atomic (snd (gget s)) = (if tl xs = [] then atomic s + 2147483648 else atomic s))"
proof (rule impI)
  assume i: "gwaiting_inv s"
  have 1: "sint (gwait s) < 2147483647 \<longrightarrow> (\<forall>s'. gput g s = Inr s' \<longrightarrow> gwaiting_inv s')"
    using i gput_gwaiting_inv[of s g] by blast
  have 2: "- 2147483648 < sint (gwait s) \<longrightarrow> gwaiting_inv (snd (gget s))"
    using i gget_gwaiting_inv[of s] by blast
  have 3: "runq s xs \<and> g \<notin> set xs \<and> Suc (length xs) < 2147483647
        \<and> (g_lockedm (gs s g) = None \<or> atomic_mcpumax (atomic s) \<le> atomic_mcpu (atomic s))
        \<and> g_idlem (gs s g) = None \<longrightarrow>
        (\<exists>s'. gput g s = Inr s' \<and> runq s' (xs @ [g]) \<and> gwaiting_inv s'
            \<and> atomic_gwaiting (atomic s') = 1
            \<and> atomic s' = (if xs = [] then atomic s + 2147483648 else atomic s))"
    using gput_fifo_gwaiting[OF i, of xs g] by blast
  have 4: "runq s xs \<and> xs \<noteq> [] \<longrightarrow>
        fst (gget s) = Some (hd xs) \<and> runq (snd (gget s)) (tl xs)
        \<and> gwaiting_inv (snd (gget s))
        \<and> (atomic_gwaiting (atomic (snd (gget s))) = 0) = (tl xs = [])
        \<and> atomic (snd (gget s)) = (if tl xs = [] then atomic s + 2147483648 else atomic s)"
    using gget_fifo_gwaiting[OF i, of xs] by blast
  show "(sint (gwait s) < 2147483647 \<longrightarrow> (\<forall>s'. gput g s = Inr s' \<longrightarrow> gwaiting_inv s'))
   \<and> (- 2147483648 < sint (gwait s) \<longrightarrow> gwaiting_inv (snd (gget s)))
   \<and> (runq s xs \<and> g \<notin> set xs \<and> Suc (length xs) < 2147483647
        \<and> (g_lockedm (gs s g) = None \<or> atomic_mcpumax (atomic s) \<le> atomic_mcpu (atomic s))
        \<and> g_idlem (gs s g) = None \<longrightarrow>
        (\<exists>s'. gput g s = Inr s' \<and> runq s' (xs @ [g]) \<and> gwaiting_inv s'
            \<and> atomic_gwaiting (atomic s') = 1
            \<and> atomic s' = (if xs = [] then atomic s + 2147483648 else atomic s)))
   \<and> (runq s xs \<and> xs \<noteq> [] \<longrightarrow>
        fst (gget s) = Some (hd xs) \<and> runq (snd (gget s)) (tl xs)
        \<and> gwaiting_inv (snd (gget s))
        \<and> (atomic_gwaiting (atomic (snd (gget s))) = 0) = (tl xs = [])
        \<and> atomic (snd (gget s)) = (if tl xs = [] then atomic s + 2147483648 else atomic s))"
    by (rule conjI[OF 1 conjI[OF 2 conjI[OF 3 4]]])
qed

theorem gput_gget_gwaiting_witness:
  "gwaiting_inv zero_state \<and> runq zero_state []
   \<and> (\<exists>s'. gput 1 zero_state = Inr s' \<and> runq s' [1] \<and> gwaiting_inv s'
         \<and> atomic_gwaiting (atomic s') = 1 \<and> atomic s' = 2147483648)
   \<and> gwaiting_inv q1 \<and> runq q1 [1]
   \<and> fst (gget q1) = Some 1 \<and> runq (snd (gget q1)) [] \<and> gwaiting_inv (snd (gget q1))
   \<and> atomic_gwaiting (atomic (snd (gget q1))) = 0 \<and> atomic (snd (gget q1)) = 0"
proof -
  have a: "gwaiting_inv zero_state" "runq zero_state []"
    by (simp_all add: gwaiting_inv_def runq_def zero_state_def atomic_gwaiting_def
        word_sless_alt)
  have b: "gwaiting_inv q1" "runq q1 [1]"
    by (simp_all add: gwaiting_inv_def runq_def q1_def zero_state_def zero_G_def
        atomic_gwaiting_def shift_defs word_sless_alt)
  have c: "g_lockedm (gs zero_state 1) = None" "g_idlem (gs zero_state 1) = None"
    by (simp_all add: zero_state_def zero_G_def)
  have d: "atomic q1 = 2147483648" "atomic zero_state = 0"
    by (simp_all add: q1_def zero_state_def)
  show ?thesis
    using gput_gget_gwaiting[of zero_state 1 "[]"] gput_gget_gwaiting[of q1 1 "[1]"] a b c d
    by (simp add: atomic_gwaiting_def shift_defs)
qed

subsection \<open>newstack\<close>

lemma sint_add32:
  "- 2147483648 \<le> sint a + sint b \<Longrightarrow> sint a + sint b < 2147483648
   \<Longrightarrow> sint (a + b :: 32 word) = sint a + sint b"
  by (simp add: sint_word_ariths signed_take_bit_int_eq_self)


text \<open>
  Claim C7, as the code has it.  When \<open>newstack\<close> allocates a segment (it does
  not throw and does not take the in-place case of \<open>reflect\<cdot>call\<close>) and the sizes
  are not negative and do not overflow an \<open>int32\<close>, it asks \<open>runtime\<cdot>stackalloc\<close>
  for \<open>max(StackMin, frame + args + StackExtra) + StackSystem\<close> bytes, where
  \<open>frame\<close> is the requested frame size, 0 when the request is the mark 1 of
  \<open>reflect\<cdot>call\<close>; the header stands at the high end of the new segment and its
  \<open>free\<close> field holds that size.
\<close>

theorem newstack_size:
  assumes curg: "m_curg (ms s (m_reg s)) = Some g1"
    and nothrow1: "\<not> gb_sp (m_morebuf (ms s (m_reg s))) < g_stackguard (gs s g1) - scast (StackGuard b)"
    and nothrow2: "unat (m_moreargsize (ms s (m_reg s))) mod sizeof_uintptr b = 0"
    and alloc: "\<not> newstack_inplace b s g1"
    and nonneg: "0 \<le> sint (newstack_frame (ms s (m_reg s)))" "0 \<le> sint (m_moreargsize (ms s (m_reg s)))"
      "0 \<le> sint (StackExtra b)" "0 \<le> sint (StackMin b)" "0 \<le> sint (StackSystem b)"
    and small: "sint (newstack_frame (ms s (m_reg s))) + sint (m_moreargsize (ms s (m_reg s)))
        + sint (StackExtra b) + sint (StackMin b) + sint (StackSystem b) < 2147483648"
  shows "\<exists>sz s' label. newstack b stk0 s = Gogocall s' label (m_morepc (ms s (m_reg s)))
     \<and> trace s' = trace s @ [Stackalloc sz]
     \<and> sint sz = max (sint (StackMin b))
           (sint (newstack_frame (ms s (m_reg s))) + sint (m_moreargsize (ms s (m_reg s)))
             + sint (StackExtra b)) + sint (StackSystem b)
     \<and> g_stackbase (gs s' g1) = stk0 + scast sz - sizeof_Stktop b
     \<and> st_free (stktops s' (g_stackbase (gs s' g1))) = scast sz"
proof -
  define m where "m = ms s (m_reg s)"
  define F where "F = newstack_frame m"
  define A where "A = m_moreargsize m"
  note nn = nonneg[folded m_def, folded F_def A_def]
  note sm = small[folded m_def, folded F_def A_def]
  have s1: "sint (F + A) = sint F + sint A" using nn sm by (intro sint_add32) auto
  have s2: "sint (F + A + StackExtra b) = sint F + sint A + sint (StackExtra b)"
    using nn sm s1 by (subst sint_add32) auto
  define fs where "fs = (if F + A + StackExtra b <s StackMin b then StackMin b else F + A + StackExtra b)"
  have s3: "sint fs = max (sint (StackMin b)) (sint F + sint A + sint (StackExtra b))"
    using s2 by (auto simp: fs_def word_sless_alt)
  have s4: "sint (fs + StackSystem b) = sint fs + sint (StackSystem b)"
    using nn sm s3 by (intro sint_add32) auto
  have ip: "\<not> (m_moreframesize m = 1
         \<and> gb_sp (m_morebuf m) - sizeof_Stktop b - scast (m_moreargsize m) - 32
             > g_stackguard (gs s g1))"
    using alloc by (simp add: newstack_inplace_def m_def Let_def)
  have fr: "(if m_moreframesize m = 1 then 0 else m_moreframesize m) = F"
    by (simp add: F_def newstack_frame_def)
  show ?thesis
    apply (rule exI[where x = "fs + StackSystem b"])
    using curg nothrow1 nothrow2 ip s3 s4
    apply (simp add: newstack_def Let_def m_def[symmetric] split_def fr)
    apply (simp add: A_def[symmetric] F_def[symmetric] emit_def upd_g_def)
    apply (simp add: fs_def)
    done
qed


text \<open>
  The size is not \<open>max(StackMin, frame + args) + StackExtra + StackSystem\<close>: a
  request of 128 + 16 bytes gets a segment of 4096 bytes, not of 5120.
\<close>

theorem newstack_size_counterexample:
  "\<not> newstack_inplace build0 ns0 1
   \<and> stop_trace (newstack build0 1048576 ns0) = [Stackalloc 4096]
   \<and> top_free 1 (newstack build0 1048576 ns0) = Some 4096
   \<and> sint (4096 :: int32) \<noteq>
       max (sint (StackMin build0))
         (sint (m_moreframesize (ms ns0 0)) + sint (m_moreargsize (ms ns0 0)))
       + sint (StackExtra build0) + sint (StackSystem build0)"
  by (simp add: newstack_inplace_def newstack_def build0_def ns0_def zero_state_def zero_G_def
      zero_M_def Let_def stop_trace_def top_free_def stop_state_def emit_def upd_g_def
      word_sless_alt)


theorem newstack_size_witness:
  "m_curg (ms ns0 (m_reg ns0)) = Some 1 \<and> \<not> newstack_inplace build0 ns0 1
   \<and> (\<exists>sz s' label. newstack build0 1048576 ns0 = Gogocall s' label 12544
         \<and> trace s' = [Stackalloc sz] \<and> sint sz = 4096
         \<and> g_stackbase (gs s' 1) = 1048576 + scast sz - 72
         \<and> st_free (stktops s' (g_stackbase (gs s' 1))) = scast sz)"
proof -
  have h: "m_curg (ms ns0 (m_reg ns0)) = Some 1"
    "\<not> gb_sp (m_morebuf (ms ns0 (m_reg ns0))) < g_stackguard (gs ns0 1) - scast (StackGuard build0)"
    "unat (m_moreargsize (ms ns0 (m_reg ns0))) mod sizeof_uintptr build0 = 0"
    "\<not> newstack_inplace build0 ns0 1"
    "0 \<le> sint (newstack_frame (ms ns0 (m_reg ns0)))"
    "0 \<le> sint (m_moreargsize (ms ns0 (m_reg ns0)))"
    "0 \<le> sint (StackExtra build0)" "0 \<le> sint (StackMin build0)" "0 \<le> sint (StackSystem build0)"
    "sint (newstack_frame (ms ns0 (m_reg ns0))) + sint (m_moreargsize (ms ns0 (m_reg ns0)))
        + sint (StackExtra build0) + sint (StackMin build0) + sint (StackSystem build0) < 2147483648"
    by (simp_all add: ns0_def build0_def zero_state_def zero_M_def zero_G_def
        newstack_inplace_def newstack_frame_def Let_def)
  have v: "sint (newstack_frame (ms ns0 (m_reg ns0))) = 128"
    "sint (m_moreargsize (ms ns0 (m_reg ns0))) = 16"
    "m_morepc (ms ns0 (m_reg ns0)) = 12544" "trace ns0 = []"
    "sint (StackExtra build0) = 1024" "sint (StackMin build0) = 4096"
    "sint (StackSystem build0) = 0" "sizeof_Stktop build0 = 72"
    by (simp_all add: ns0_def build0_def zero_state_def zero_M_def newstack_frame_def)
  show ?thesis
    using newstack_size[OF h, of 1048576] h(1,4) by (simp add: v)
qed

subsection \<open>Deferred calls\<close>

lemma rundefer_trace:
  "trace (rundefer s)
     = trace s @ map (\<lambda>d. Reflect_call (d_fn d) (d_args d) (d_siz d)) (g_defer (gs s (g_reg s)))
   \<and> g_defer (gs (rundefer s) (g_reg s)) = [] \<and> g_reg (rundefer s) = g_reg s"
proof (induction s rule: rundefer.induct)
  case (1 s)
  show ?case
  proof (cases "g_defer (gs s (g_reg s))")
    case Nil
    hence "rundefer s = s" by (subst rundefer.simps) simp
    thus ?thesis using Nil by simp
  next
    case (Cons d link)
    let ?s' = "emit (Reflect_call (d_fn d) (d_args d) (d_siz d))
                 (upd_g (g_reg s) (\<lambda>x. x\<lparr>g_defer := link\<rparr>) s)"
    have r: "rundefer s = rundefer ?s'" using Cons by (subst rundefer.simps) (simp add: Let_def)
    have "trace (rundefer ?s')
        = trace ?s' @ map (\<lambda>d. Reflect_call (d_fn d) (d_args d) (d_siz d))
                        (g_defer (gs ?s' (g_reg ?s')))
      \<and> g_defer (gs (rundefer ?s') (g_reg ?s')) = [] \<and> g_reg (rundefer ?s') = g_reg ?s'"
      using "1.IH"[OF Cons refl refl] by simp
    thus ?thesis using Cons by (simp add: r emit_def upd_g_def)
  qed
qed

lemma defer_all_defer:
  "g_defer (gs (defer_all b peek cs s) (g_reg s))
     = rev (map (\<lambda>(siz, fn, fn_addr, callerpc). new_defer b siz fn fn_addr callerpc peek) cs)
       @ g_defer (gs s (g_reg s))
   \<and> trace (defer_all b peek cs s) = trace s \<and> g_reg (defer_all b peek cs s) = g_reg s"
  by (induction b peek cs s rule: defer_all.induct)
    (auto simp: deferproc_def Let_def upd_g_def)

lemma new_defer_call:
  "(\<lambda>d. Reflect_call (d_fn d) (d_args d) (d_siz d)) (new_defer b siz fn fn_addr callerpc peek)
     = Reflect_call fn
         (peek (if thechar b = CHR ''5'' then fn_addr + 2 * of_nat (sizeof_uintptr b)
                else fn_addr + of_nat (sizeof_uintptr b)) (unat siz)) siz"
  by (simp add: new_defer_def Let_def)

lemma defer_all_calls:
  "map (\<lambda>d. Reflect_call (d_fn d) (d_args d) (d_siz d))
     (rev (map (\<lambda>(siz, fn, fn_addr, callerpc). new_defer b siz fn fn_addr callerpc peek) cs))
   = map (\<lambda>(siz, fn, fn_addr, callerpc).
            Reflect_call fn
              (peek (if thechar b = CHR ''5'' then fn_addr + 2 * of_nat (sizeof_uintptr b)
                     else fn_addr + of_nat (sizeof_uintptr b)) (unat siz)) siz)
       (rev cs)"
  by (simp add: rev_map new_defer_def Let_def case_prod_beta)

text \<open>
  Claim C8.  \<open>deferproc\<close> returns 0 and links the new record, which holds the
  function, the size and a copy of the arguments taken from the caller's frame,
  at the head of the defer list of the current goroutine.  After a goroutine
  has deferred the calls \<open>cs\<close> in this order, the drain \<open>rundefer\<close> (the first
  step of \<open>runtime\<cdot>Goexit\<close>) makes exactly these calls of \<open>reflect\<cdot>call\<close>, each
  with the function, the arguments and the size that were deferred, in the
  reverse order, the last deferred first; then come the calls that were on the
  list before, and the list is left empty.
\<close>

theorem defer_lifo:
  "fst (deferproc b siz fn fn_addr callerpc peek s) = 0
   \<and> g_defer (gs (snd (deferproc b siz fn fn_addr callerpc peek s)) (g_reg s))
       = \<lparr>d_siz = siz, d_nofree = False,
          d_argp = (if thechar b = CHR ''5'' then fn_addr + 2 * of_nat (sizeof_uintptr b)
                    else fn_addr + of_nat (sizeof_uintptr b)),
          d_pc = callerpc, d_fn = fn,
          d_args = peek (if thechar b = CHR ''5'' then fn_addr + 2 * of_nat (sizeof_uintptr b)
                         else fn_addr + of_nat (sizeof_uintptr b)) (unat siz)\<rparr>
         # g_defer (gs s (g_reg s))
   \<and> trace (rundefer (defer_all b peek cs s))
       = trace s
         @ map (\<lambda>(siz, fn, fn_addr, callerpc).
                  Reflect_call fn
                    (peek (if thechar b = CHR ''5'' then fn_addr + 2 * of_nat (sizeof_uintptr b)
                           else fn_addr + of_nat (sizeof_uintptr b)) (unat siz)) siz)
             (rev cs)
         @ map (\<lambda>d. Reflect_call (d_fn d) (d_args d) (d_siz d)) (g_defer (gs s (g_reg s)))
   \<and> g_defer (gs (rundefer (defer_all b peek cs s)) (g_reg s)) = []"
proof -
  have 1: "fst (deferproc b siz fn fn_addr callerpc peek s) = 0"
    by (simp add: deferproc_def Let_def)
  have 2: "g_defer (gs (snd (deferproc b siz fn fn_addr callerpc peek s)) (g_reg s))
       = \<lparr>d_siz = siz, d_nofree = False,
          d_argp = (if thechar b = CHR ''5'' then fn_addr + 2 * of_nat (sizeof_uintptr b)
                    else fn_addr + of_nat (sizeof_uintptr b)),
          d_pc = callerpc, d_fn = fn,
          d_args = peek (if thechar b = CHR ''5'' then fn_addr + 2 * of_nat (sizeof_uintptr b)
                         else fn_addr + of_nat (sizeof_uintptr b)) (unat siz)\<rparr>
         # g_defer (gs s (g_reg s))"
    by (simp add: deferproc_def Let_def upd_g_def new_defer_def)
  have 3: "trace (rundefer (defer_all b peek cs s))
       = trace s
         @ map (\<lambda>(siz, fn, fn_addr, callerpc).
                  Reflect_call fn
                    (peek (if thechar b = CHR ''5'' then fn_addr + 2 * of_nat (sizeof_uintptr b)
                           else fn_addr + of_nat (sizeof_uintptr b)) (unat siz)) siz)
             (rev cs)
         @ map (\<lambda>d. Reflect_call (d_fn d) (d_args d) (d_siz d)) (g_defer (gs s (g_reg s)))"
    using rundefer_trace[of "defer_all b peek cs s"] defer_all_defer[of b peek cs s]
      defer_all_calls[of b peek cs]
    by simp
  have 4: "g_defer (gs (rundefer (defer_all b peek cs s)) (g_reg s)) = []"
    using rundefer_trace[of "defer_all b peek cs s"] defer_all_defer[of b peek cs s] by simp
  show ?thesis by (rule conjI[OF 1 conjI[OF 2 conjI[OF 3 4]]])
qed

theorem defer_lifo_witness:
  "fst (deferproc build0 2 103 3000 9 (\<lambda>a n. replicate n 7) zero_state) = 0
   \<and> trace (rundefer (defer_all build0 (\<lambda>a n. replicate n 7)
                [(0, 101, 1000, 7), (1, 102, 2000, 8), (2, 103, 3000, 9)] zero_state))
       = [Reflect_call 103 [7, 7] 2, Reflect_call 102 [7] 1, Reflect_call 101 [] 0]
   \<and> g_defer (gs (rundefer (defer_all build0 (\<lambda>a n. replicate n 7)
                [(0, 101, 1000, 7), (1, 102, 2000, 8), (2, 103, 3000, 9)] zero_state))
                (g_reg zero_state)) = []"
proof -
  note t = defer_lifo[of build0 2 103 3000 9 "\<lambda>a n. replicate n 7" zero_state
      "[(0, 101, 1000, 7), (1, 102, 2000, 8), (2, 103, 3000, 9)]"]
  have u: "replicate 2 (7 :: 8 word) = [7, 7]" by (simp add: numeral_2_eq_2)
  have e: "trace zero_state
         @ map (\<lambda>(siz, fn, fn_addr, callerpc).
                  Reflect_call fn
                    ((\<lambda>a n. replicate n 7)
                       (if thechar build0 = CHR ''5''
                        then fn_addr + 2 * of_nat (sizeof_uintptr build0)
                        else fn_addr + of_nat (sizeof_uintptr build0)) (unat siz)) siz)
             (rev [(0, 101, 1000, 7), (1, 102, 2000, 8), (2, 103, 3000, 9)])
         @ map (\<lambda>d. Reflect_call (d_fn d) (d_args d) (d_siz d))
             (g_defer (gs zero_state (g_reg zero_state)))
       = [Reflect_call 103 [7, 7] 2, Reflect_call 102 [7] 1, Reflect_call 101 [] 0]"
    by (simp add: zero_state_def zero_G_def u)
  have a: "fst (deferproc build0 2 103 3000 9 (\<lambda>a n. replicate n 7) zero_state) = 0"
    using t by blast
  have b: "trace (rundefer (defer_all build0 (\<lambda>a n. replicate n 7)
                [(0, 101, 1000, 7), (1, 102, 2000, 8), (2, 103, 3000, 9)] zero_state))
       = [Reflect_call 103 [7, 7] 2, Reflect_call 102 [7] 1, Reflect_call 101 [] 0]"
    using t e by (elim conjE) (simp only:)
  have c: "g_defer (gs (rundefer (defer_all build0 (\<lambda>a n. replicate n 7)
                [(0, 101, 1000, 7), (1, 102, 2000, 8), (2, 103, 3000, 9)] zero_state))
                (g_reg zero_state)) = []"
    using t by blast
  show ?thesis using a b c by blast
qed

subsection \<open>The cap at start-up\<close>

lemma uint_of_sint_nonneg: "0 \<le> sint (x::32 word) \<Longrightarrow> uint x = sint x"
proof -
  assume a: "0 \<le> sint x"
  have "sint x < 2147483648" using sint_lt[of x] by simp
  hence "sint x < 2 ^ 32" by simp
  hence "take_bit 32 (sint x) = sint x" using a by (intro take_bit_int_eq_self)
  thus ?thesis by (simp add: uint_sint)
qed

lemma sint_small_less: "0 \<le> sint (x::32 word) \<Longrightarrow> sint x < 32768 \<Longrightarrow> x < 32768"
  using uint_of_sint_nonneg[of x] by (simp add: word_less_def)

lemma and_mcpuMask_small: "0 \<le> sint (x::32 word) \<Longrightarrow> sint x < 32768 \<Longrightarrow> x AND mcpuMask = x"
  using sint_small_less[of x] by (simp add: mcpuMask_mask less_mask_eq)

lemma setmcpumax_fields:
  "atomic_mcpumax (atomic (setmcpumax n s)) = n AND mcpuMask"
  "atomic_mcpu (atomic (setmcpumax n s)) = atomic_mcpu (atomic s)"
  by (simp_all add: setmcpumax_eq atomic_mcpumax_take_bit atomic_mcpu_take_bit mcpuMask_mask
      bit_eq_iff bit_simps) auto

lemma sint_maxgomaxprocs: "sint maxgomaxprocs = 32757"
  by (simp add: shift_defs)


lemma schedinit_gomaxprocs:
  "gomaxprocs (schedinit p atoi s) =
     (case p of None \<Rightarrow> 1
      | Some str \<Rightarrow> if atoi str \<noteq> 0
                    then (if maxgomaxprocs <s atoi str then maxgomaxprocs else atoi str)
                    else 1)"
  by (simp add: schedinit_def Let_def setmcpumax_eq split: option.splits)

lemma schedinit_mcpumax:
  "atomic_mcpumax (atomic (schedinit p atoi s)) = gomaxprocs (schedinit p atoi s) AND mcpuMask"
proof -
  define n where "n = gomaxprocs (schedinit p atoi s)"
  have "\<exists>s1. atomic (schedinit p atoi s) = atomic (setmcpumax n s1)"
    unfolding n_def
    by (auto simp: schedinit_def Let_def setmcpumax_eq mcommoninit_atomic split: option.splits)
  thus ?thesis by (auto simp: setmcpumax_fields n_def)
qed

lemma schedinit_flags:
  "singleproc (schedinit p atoi s) = (gomaxprocs (schedinit p atoi s) = 1)"
  "predawn (schedinit p atoi s) = 1"
  by (simp_all add: schedinit_def Let_def setmcpumax_eq split: option.splits)


lemma sint_eqD: "sint x = i \<Longrightarrow> x = of_int i" for x :: "32 word"
proof -
  assume "sint x = i"
  hence "(of_int (sint x) :: 32 word) = of_int i" by simp
  thus ?thesis by simp
qed

lemma schedinit_atomic:
  "atomic (schedinit p atoi s)
     = (atomic s AND NOT (push_bit mcpumaxShift mcpuMask))
       OR push_bit mcpumaxShift (gomaxprocs (schedinit p atoi s))"
  by (simp add: schedinit_def Let_def setmcpumax_eq mcommoninit_atomic shift_defs
      split: option.splits)

lemma neg_bit31: "sint (n :: 32 word) < 0 \<Longrightarrow> bit n 31"
  by (simp add: sint_uint signed_take_bit_negative_iff bit_uint_iff)

lemma neg_and_mask_ne: "sint (n :: 32 word) < 0 \<Longrightarrow> n AND mcpuMask \<noteq> n"
proof
  assume neg: "sint n < 0" and eq: "n AND mcpuMask = n"
  have "bit (n AND mcpuMask) 31" using neg_bit31[OF neg] eq by simp
  thus False by (simp add: mcpuMask_mask bit_simps)
qed

lemma int_div_neg1:
  assumes "- 32768 \<le> (k::int)" and "k < 0"
  shows "k div 32768 = - 1" and "k div 65536 = - 1"
proof -
  have "(k + 32768) div 32768 = 0" using assms by (intro div_pos_pos_trivial) simp_all
  moreover have "(k + 32768) div 32768 = k div 32768 + 1" by simp
  ultimately show "k div 32768 = - 1" by simp
  have "(k + 65536) div 65536 = 0" using assms by (intro div_pos_pos_trivial) simp_all
  moreover have "(k + 65536) div 65536 = k div 65536 + 1" by simp
  ultimately show "k div 65536 = - 1" by simp
qed

lemma neg_small_bits:
  assumes "- 32768 \<le> sint (n :: 32 word)" and "sint n < 0"
  shows "bit n 15" and "bit n 16"
proof -
  have "bit (sint n) 15" "bit (sint n) 16"
    using int_div_neg1[OF assms] by (simp_all add: bit_iff_odd)
  thus "bit n 15" and "bit n 16" by (simp_all add: bit_sint_iff)
qed


lemma waitstop_of_bool: "atomic_waitstop v = of_bool (bit v 30)"
  by (simp add: atomic_waitstop_def shift_defs bit_iff_odd_drop_bit and_one_eq mod_2_eq_odd)

lemma gwaiting_of_bool: "atomic_gwaiting v = of_bool (bit v 31)"
  by (simp add: atomic_gwaiting_def shift_defs bit_iff_odd_drop_bit and_one_eq mod_2_eq_odd)

lemma setmcpumax_spill:
  assumes "- 32768 \<le> sint (n :: 32 word)" and "sint n < 0"
  shows "atomic_waitstop (atomic (setmcpumax n s)) = 1"
    and "atomic_gwaiting (atomic (setmcpumax n s)) = 1"
  using neg_small_bits[OF assms]
  by (simp_all add: setmcpumax_eq waitstop_of_bool gwaiting_of_bool bit_simps)

lemma small_bits_clear:
  assumes "0 \<le> sint (n :: 32 word)" and "sint n < 32768"
  shows "\<not> bit n 15" and "\<not> bit n 16"
proof -
  have e: "n AND mask 15 = n" using and_mcpuMask_small[OF assms] by (simp add: mcpuMask_mask)
  have "\<not> bit (n AND mask 15) 15" "\<not> bit (n AND mask 15) 16" by (simp_all add: bit_simps)
  thus "\<not> bit n 15" and "\<not> bit n 16" by (simp_all add: e)
qed

lemma setmcpumax_flags_kept:
  assumes "0 \<le> sint (n :: 32 word)" and "sint n < 32768"
  shows "atomic_waitstop (atomic (setmcpumax n s)) = atomic_waitstop (atomic s)"
    and "atomic_gwaiting (atomic (setmcpumax n s)) = atomic_gwaiting (atomic s)"
  using small_bits_clear[OF assms]
  by (simp_all add: setmcpumax_eq waitstop_of_bool gwaiting_of_bool bit_simps mcpuMask_mask)

lemma schedinit_setmcpumax:
  "\<exists>s1. atomic (schedinit p atoi s) = atomic (setmcpumax (gomaxprocs (schedinit p atoi s)) s1)
        \<and> atomic s1 = atomic s"
  by (auto simp: schedinit_def Let_def setmcpumax_eq mcommoninit_atomic split: option.splits)


lemma schedinit_gomaxprocs_sint:
  "sint (gomaxprocs (schedinit p atoi s)) =
     (case p of None \<Rightarrow> 1
      | Some str \<Rightarrow> if atoi str \<noteq> 0 then min (sint (atoi str)) (sint maxgomaxprocs) else 1)"
  by (auto simp: schedinit_gomaxprocs word_sless_alt split: option.splits)

text \<open>
  Claim C10.  \<open>schedinit\<close> clamps the value of GOMAXPROCS from above only.  When
  the variable is unset or parses to 0, \<open>gomaxprocs\<close> and the mcpumax field are 1.
  When it parses to \<open>n \<noteq> 0\<close>, \<open>gomaxprocs\<close> is the smaller of \<open>n\<close> and
  \<open>maxgomaxprocs\<close> as signed numbers, so a negative \<open>n\<close> is stored as it is.  The
  value goes to \<open>setmcpumax\<close>, which clears the mcpumax field and ORs the value,
  shifted and not masked, into the word.  For a positive \<open>n\<close> the field then holds
  \<open>gomaxprocs\<close> and the waitstop and gwaiting bits are as before.  For a negative
  \<open>n\<close> the field holds only the low 15 bits, which is never \<open>gomaxprocs\<close>, and
  the bits above them land on waitstop and gwaiting: both are set for every
  \<open>n\<close> from \<open>-32768\<close> to \<open>-1\<close>.  The mcpu field is not touched.
\<close>

theorem schedinit_cap:
  "(p = None \<or> (\<exists>str. p = Some str \<and> atoi str = 0) \<longrightarrow>
       gomaxprocs (schedinit p atoi s) = 1
       \<and> atomic_mcpumax (atomic (schedinit p atoi s)) = 1)
   \<and> (\<forall>str. p = Some str \<and> atoi str \<noteq> 0 \<longrightarrow>
        sint (gomaxprocs (schedinit p atoi s)) = min (sint (atoi str)) (sint maxgomaxprocs)
        \<and> (sint (atoi str) < 0 \<longrightarrow> gomaxprocs (schedinit p atoi s) = atoi str)
        \<and> (0 < sint (atoi str) \<longrightarrow>
             atomic_mcpumax (atomic (schedinit p atoi s)) = gomaxprocs (schedinit p atoi s)))
   \<and> atomic_mcpumax (atomic (schedinit p atoi s)) = gomaxprocs (schedinit p atoi s) AND mcpuMask
   \<and> singleproc (schedinit p atoi s) = (gomaxprocs (schedinit p atoi s) = 1)
   \<and> predawn (schedinit p atoi s) = 1
   \<and> atomic (schedinit p atoi s)
       = (atomic s AND NOT (push_bit mcpumaxShift mcpuMask))
         OR push_bit mcpumaxShift (gomaxprocs (schedinit p atoi s))
   \<and> atomic_mcpu (atomic (schedinit p atoi s)) = atomic_mcpu (atomic s)
   \<and> (\<forall>str. p = Some str \<and> sint (atoi str) < 0 \<longrightarrow>
        atomic_mcpumax (atomic (schedinit p atoi s)) \<noteq> gomaxprocs (schedinit p atoi s))
   \<and> (\<forall>str. p = Some str \<and> - 32768 \<le> sint (atoi str) \<and> sint (atoi str) < 0 \<longrightarrow>
        atomic_waitstop (atomic (schedinit p atoi s)) = 1
        \<and> atomic_gwaiting (atomic (schedinit p atoi s)) = 1)
   \<and> (p = None \<or> (\<exists>str. p = Some str \<and> 0 \<le> sint (atoi str)) \<longrightarrow>
        atomic_waitstop (atomic (schedinit p atoi s)) = atomic_waitstop (atomic s)
        \<and> atomic_gwaiting (atomic (schedinit p atoi s)) = atomic_gwaiting (atomic s))"
proof -
  define g where "g = gomaxprocs (schedinit p atoi s)"
  obtain s1 where s1: "atomic (schedinit p atoi s) = atomic (setmcpumax g s1)"
    "atomic s1 = atomic s"
    using schedinit_setmcpumax[of p atoi s] unfolding g_def by blast
  have one: "(1::32 word) AND mcpuMask = 1" by (simp add: and_mcpuMask_small)
  have 1: "p = None \<or> (\<exists>str. p = Some str \<and> atoi str = 0) \<longrightarrow>
       gomaxprocs (schedinit p atoi s) = 1
       \<and> atomic_mcpumax (atomic (schedinit p atoi s)) = 1"
    by (auto simp: schedinit_mcpumax schedinit_gomaxprocs one)
  have 2: "\<forall>str. p = Some str \<and> atoi str \<noteq> 0 \<longrightarrow>
        sint (gomaxprocs (schedinit p atoi s)) = min (sint (atoi str)) (sint maxgomaxprocs)
        \<and> (sint (atoi str) < 0 \<longrightarrow> gomaxprocs (schedinit p atoi s) = atoi str)
        \<and> (0 < sint (atoi str) \<longrightarrow>
             atomic_mcpumax (atomic (schedinit p atoi s)) = gomaxprocs (schedinit p atoi s))"
  proof (intro allI impI)
    fix str assume a: "p = Some str \<and> atoi str \<noteq> 0"
    define n where "n = atoi str"
    have g: "gomaxprocs (schedinit p atoi s) = (if maxgomaxprocs <s n then maxgomaxprocs else n)"
      using a by (simp add: schedinit_gomaxprocs n_def)
    have m: "sint (gomaxprocs (schedinit p atoi s)) = min (sint n) (sint maxgomaxprocs)"
      by (auto simp: g word_sless_alt)
    have neg: "sint n < 0 \<longrightarrow> gomaxprocs (schedinit p atoi s) = n"
      by (auto simp: g word_sless_alt sint_maxgomaxprocs)
    have pos: "0 < sint n \<longrightarrow>
        atomic_mcpumax (atomic (schedinit p atoi s)) = gomaxprocs (schedinit p atoi s)"
    proof
      assume "0 < sint n"
      hence "0 \<le> sint (gomaxprocs (schedinit p atoi s))"
        "sint (gomaxprocs (schedinit p atoi s)) < 32768"
        using m by (auto simp: sint_maxgomaxprocs)
      thus "atomic_mcpumax (atomic (schedinit p atoi s)) = gomaxprocs (schedinit p atoi s)"
        by (simp add: schedinit_mcpumax and_mcpuMask_small)
    qed
    show "sint (gomaxprocs (schedinit p atoi s)) = min (sint (atoi str)) (sint maxgomaxprocs)
        \<and> (sint (atoi str) < 0 \<longrightarrow> gomaxprocs (schedinit p atoi s) = atoi str)
        \<and> (0 < sint (atoi str) \<longrightarrow>
             atomic_mcpumax (atomic (schedinit p atoi s)) = gomaxprocs (schedinit p atoi s))"
      using m neg pos by (simp add: n_def)
  qed
  have 6: "atomic (schedinit p atoi s)
       = (atomic s AND NOT (push_bit mcpumaxShift mcpuMask))
         OR push_bit mcpumaxShift (gomaxprocs (schedinit p atoi s))"
    by (rule schedinit_atomic)
  have 7: "atomic_mcpu (atomic (schedinit p atoi s)) = atomic_mcpu (atomic s)"
    using s1 by (simp add: setmcpumax_fields)
  have 8: "\<forall>str. p = Some str \<and> sint (atoi str) < 0 \<longrightarrow>
        atomic_mcpumax (atomic (schedinit p atoi s)) \<noteq> gomaxprocs (schedinit p atoi s)"
  proof (intro allI impI)
    fix str assume a: "p = Some str \<and> sint (atoi str) < 0"
    hence "sint g < 0"
      using schedinit_gomaxprocs_sint[of p atoi s] by (auto simp: g_def sint_maxgomaxprocs)
    hence "g AND mcpuMask \<noteq> g" by (rule neg_and_mask_ne)
    thus "atomic_mcpumax (atomic (schedinit p atoi s)) \<noteq> gomaxprocs (schedinit p atoi s)"
      by (simp add: schedinit_mcpumax g_def)
  qed
  have 9: "\<forall>str. p = Some str \<and> - 32768 \<le> sint (atoi str) \<and> sint (atoi str) < 0 \<longrightarrow>
        atomic_waitstop (atomic (schedinit p atoi s)) = 1
        \<and> atomic_gwaiting (atomic (schedinit p atoi s)) = 1"
  proof (intro allI impI)
    fix str assume a: "p = Some str \<and> - 32768 \<le> sint (atoi str) \<and> sint (atoi str) < 0"
    hence "- 32768 \<le> sint g" "sint g < 0"
      using schedinit_gomaxprocs_sint[of p atoi s] by (auto simp: g_def sint_maxgomaxprocs)
    thus "atomic_waitstop (atomic (schedinit p atoi s)) = 1
        \<and> atomic_gwaiting (atomic (schedinit p atoi s)) = 1"
      by (simp add: s1 setmcpumax_spill)
  qed
  have 10: "p = None \<or> (\<exists>str. p = Some str \<and> 0 \<le> sint (atoi str)) \<longrightarrow>
        atomic_waitstop (atomic (schedinit p atoi s)) = atomic_waitstop (atomic s)
        \<and> atomic_gwaiting (atomic (schedinit p atoi s)) = atomic_gwaiting (atomic s)"
  proof
    assume a: "p = None \<or> (\<exists>str. p = Some str \<and> 0 \<le> sint (atoi str))"
    hence "0 \<le> sint g" "sint g < 32768"
      using schedinit_gomaxprocs_sint[of p atoi s]
      by (auto simp: g_def sint_maxgomaxprocs split: if_splits)
    thus "atomic_waitstop (atomic (schedinit p atoi s)) = atomic_waitstop (atomic s)
        \<and> atomic_gwaiting (atomic (schedinit p atoi s)) = atomic_gwaiting (atomic s)"
      using setmcpumax_flags_kept[of g s1] by (simp add: s1)
  qed
  show ?thesis
    using 1 2 schedinit_mcpumax[of p atoi s] schedinit_flags[of p atoi s] 6 7 8 9 10
    by blast
qed

theorem schedinit_cap_witness:
  "gomaxprocs (schedinit None (\<lambda>x. 0) zero_state) = 1
   \<and> atomic_mcpumax (atomic (schedinit None (\<lambda>x. 0) zero_state)) = 1
   \<and> gomaxprocs (schedinit (Some ''8'') (\<lambda>x. 8) zero_state) = 8
   \<and> atomic_mcpumax (atomic (schedinit (Some ''8'') (\<lambda>x. 8) zero_state)) = 8
   \<and> atomic_waitstop (atomic (schedinit (Some ''8'') (\<lambda>x. 8) zero_state)) = 0
   \<and> atomic_gwaiting (atomic (schedinit (Some ''8'') (\<lambda>x. 8) zero_state)) = 0
   \<and> gomaxprocs (schedinit (Some ''40000'') (\<lambda>x. 40000) zero_state) = 32757
   \<and> gomaxprocs (schedinit (Some ''4294967295'') (\<lambda>x. - 1) zero_state) = - 1
   \<and> atomic_mcpumax (atomic (schedinit (Some ''4294967295'') (\<lambda>x. - 1) zero_state)) = 32767
   \<and> atomic_waitstop (atomic (schedinit (Some ''4294967295'') (\<lambda>x. - 1) zero_state)) = 1
   \<and> atomic_gwaiting (atomic (schedinit (Some ''4294967295'') (\<lambda>x. - 1) zero_state)) = 1"
proof -
  have e: "(- 1 :: 32 word) AND mcpuMask = 32767" "sint (40000 :: 32 word) = 40000"
    by (simp_all add: shift_defs)
  have z: "atomic_waitstop (atomic zero_state) = 0" "atomic_gwaiting (atomic zero_state) = 0"
    by (simp_all add: zero_state_def atomic_waitstop_def atomic_gwaiting_def)
  note t0 = schedinit_cap[of None "\<lambda>x. 0" zero_state]
  have a: "gomaxprocs (schedinit None (\<lambda>x. 0) zero_state) = 1
     \<and> atomic_mcpumax (atomic (schedinit None (\<lambda>x. 0) zero_state)) = 1"
    using t0 by blast
  note t8 = schedinit_cap[of "Some ''8''" "\<lambda>x. 8" zero_state]
  have h8: "Some ''8'' = Some ''8'' \<and> (8 :: 32 word) \<noteq> 0" "(0::int) < sint (8 :: 32 word)"
    "Some ''8'' = None \<or> (\<exists>str. Some ''8'' = Some str \<and> 0 \<le> sint (8 :: 32 word))"
    by simp_all
  have "sint (gomaxprocs (schedinit (Some ''8'') (\<lambda>x. 8) zero_state))
          = min (sint (8 :: 32 word)) (sint maxgomaxprocs)
     \<and> atomic_mcpumax (atomic (schedinit (Some ''8'') (\<lambda>x. 8) zero_state))
        = gomaxprocs (schedinit (Some ''8'') (\<lambda>x. 8) zero_state)"
    using t8 h8 by blast
  hence "sint (gomaxprocs (schedinit (Some ''8'') (\<lambda>x. 8) zero_state)) = 8
     \<and> atomic_mcpumax (atomic (schedinit (Some ''8'') (\<lambda>x. 8) zero_state))
        = gomaxprocs (schedinit (Some ''8'') (\<lambda>x. 8) zero_state)"
    by (simp add: sint_maxgomaxprocs)
  hence b: "gomaxprocs (schedinit (Some ''8'') (\<lambda>x. 8) zero_state) = 8
     \<and> atomic_mcpumax (atomic (schedinit (Some ''8'') (\<lambda>x. 8) zero_state)) = 8"
    by (auto dest!: sint_eqD)
  have "atomic_waitstop (atomic (schedinit (Some ''8'') (\<lambda>x. 8) zero_state))
          = atomic_waitstop (atomic zero_state)
     \<and> atomic_gwaiting (atomic (schedinit (Some ''8'') (\<lambda>x. 8) zero_state))
          = atomic_gwaiting (atomic zero_state)"
    using t8 h8 by blast
  hence b2: "atomic_waitstop (atomic (schedinit (Some ''8'') (\<lambda>x. 8) zero_state)) = 0
     \<and> atomic_gwaiting (atomic (schedinit (Some ''8'') (\<lambda>x. 8) zero_state)) = 0"
    by (simp add: z)
  note t4 = schedinit_cap[of "Some ''40000''" "\<lambda>x. 40000" zero_state]
  have h4: "Some ''40000'' = Some ''40000'' \<and> (40000 :: 32 word) \<noteq> 0" by simp
  have "sint (gomaxprocs (schedinit (Some ''40000'') (\<lambda>x. 40000) zero_state))
          = min (sint (40000 :: 32 word)) (sint maxgomaxprocs)"
    using t4 h4 by blast
  hence "sint (gomaxprocs (schedinit (Some ''40000'') (\<lambda>x. 40000) zero_state)) = 32757"
    by (simp add: e sint_maxgomaxprocs)
  hence c: "gomaxprocs (schedinit (Some ''40000'') (\<lambda>x. 40000) zero_state) = 32757"
    by (auto dest!: sint_eqD)
  note tn = schedinit_cap[of "Some ''4294967295''" "\<lambda>x. - 1" zero_state]
  have hn: "Some ''4294967295'' = Some ''4294967295'' \<and> (- 1 :: 32 word) \<noteq> 0"
    "sint (- 1 :: 32 word) < 0"
    "Some ''4294967295'' = Some ''4294967295'' \<and> - 32768 \<le> sint (- 1 :: 32 word)
       \<and> sint (- 1 :: 32 word) < 0"
    by simp_all
  have d1: "gomaxprocs (schedinit (Some ''4294967295'') (\<lambda>x. - 1) zero_state) = - 1"
    using tn hn by blast
  have "atomic_mcpumax (atomic (schedinit (Some ''4294967295'') (\<lambda>x. - 1) zero_state))
          = gomaxprocs (schedinit (Some ''4294967295'') (\<lambda>x. - 1) zero_state) AND mcpuMask"
    using tn by blast
  hence d2: "atomic_mcpumax (atomic (schedinit (Some ''4294967295'') (\<lambda>x. - 1) zero_state))
          = 32767"
    by (simp add: d1 shift_defs)
  have d3: "atomic_waitstop (atomic (schedinit (Some ''4294967295'') (\<lambda>x. - 1) zero_state)) = 1
     \<and> atomic_gwaiting (atomic (schedinit (Some ''4294967295'') (\<lambda>x. - 1) zero_state)) = 1"
    using tn hn by blast
  show ?thesis using a b b2 c d1 d2 d3 by blast
qed

text \<open>
  The parse result \<open>-1\<close> on the zeroed scheduler: \<open>gomaxprocs\<close> is \<open>-1\<close>, the word
  is \<open>0xFFFF8000\<close>, so the mcpumax field is 32767 and not \<open>gomaxprocs\<close>, waitstop
  is set with no collection under way, and gwaiting is set with \<open>gwait = 0\<close>,
  against the layout of the word that the source documents (gwaiting: \<open>gwait != 0\<close>).
\<close>

theorem schedinit_cap_counterexample:
  "gomaxprocs (schedinit (Some ''4294967295'') (\<lambda>x. - 1) zero_state) = - 1
   \<and> atomic (schedinit (Some ''4294967295'') (\<lambda>x. - 1) zero_state) = 4294934528
   \<and> atomic_mcpumax (atomic (schedinit (Some ''4294967295'') (\<lambda>x. - 1) zero_state)) = 32767
   \<and> atomic_mcpumax (atomic (schedinit (Some ''4294967295'') (\<lambda>x. - 1) zero_state))
       \<noteq> gomaxprocs (schedinit (Some ''4294967295'') (\<lambda>x. - 1) zero_state)
   \<and> atomic_waitstop (atomic (schedinit (Some ''4294967295'') (\<lambda>x. - 1) zero_state)) = 1
   \<and> atomic_gwaiting (atomic (schedinit (Some ''4294967295'') (\<lambda>x. - 1) zero_state)) = 1
   \<and> gwait (schedinit (Some ''4294967295'') (\<lambda>x. - 1) zero_state) = 0
   \<and> \<not> gwaiting_inv (schedinit (Some ''4294967295'') (\<lambda>x. - 1) zero_state)"
proof -
  have g: "gomaxprocs (schedinit (Some ''4294967295'') (\<lambda>x. - 1) zero_state) = - 1"
    by (simp add: schedinit_gomaxprocs word_sless_alt sint_maxgomaxprocs)
  have a: "atomic (schedinit (Some ''4294967295'') (\<lambda>x. - 1) zero_state) = 4294934528"
    unfolding schedinit_atomic g
    by (simp add: zero_state_def shift_defs mask_eq_exp_minus_1 not_eq_complement)
  have w: "gwait (schedinit (Some ''4294967295'') (\<lambda>x. - 1) zero_state) = 0"
    by (simp add: schedinit_def Let_def setmcpumax_eq mcommoninit_def upd_m_def zero_state_def)
  have f: "atomic_mcpumax 4294934528 = 32767" "atomic_waitstop 4294934528 = 1"
    "atomic_gwaiting 4294934528 = 1" "(32767 :: 32 word) \<noteq> - 1"
    by (simp_all add: atomic_mcpumax_def atomic_waitstop_def atomic_gwaiting_def shift_defs)
  show ?thesis
    by (simp add: g a w f gwaiting_inv_def word_sless_alt)
qed

subsection \<open>Wakeups of a critical section\<close>

lemma mnextg_waiting:
  "waiting (mnextg m g s) = (waiting s)(m := False)"
  by (rule ext) (simp add: waiting_def mnextg_def Let_def upd_m_def emit_def split: option.splits)

lemma mnextg_trace:
  "trace (mnextg m g s) = trace s @ (if waiting s m then map wake (pending s) else [])"
  by (simp add: waiting_def mnextg_def Let_def upd_m_def emit_def pending_def wake_def
      split: option.splits)

lemma mnextg_pending:
  "pending (mnextg m g s) = (if waiting s m then [m] else pending s)"
  by (simp add: waiting_def mnextg_def Let_def upd_m_def emit_def pending_def
      split: option.splits)

lemma pending_length: "length (pending s) \<le> 1"
  by (simp add: pending_def split: option.splits)

lemma handoffs_trace:
  "trace (handoffs hs s) = trace s @ map wake (butlast (pending s @ waiters hs (waiting s)))
   \<and> pending (handoffs hs s)
       = (if pending s @ waiters hs (waiting s) = [] then []
          else [last (pending s @ waiters hs (waiting s))])"
proof (induction hs arbitrary: s)
  case Nil
  then show ?case using pending_length[of s] by (cases "pending s") auto
next
  case (Cons h hs)
  obtain m g where h: "h = (m, g)" by (cases h)
  define s1 where "s1 = mnextg m g s"
  show ?case
  proof (cases "waiting s m")
    case True
    define w' where "w' = (waiting s)(m := False)"
    define ws where "ws = waiters hs w'"
    have w1: "waiting s1 = w'" by (simp add: s1_def mnextg_waiting w'_def)
    have t1: "trace s1 = trace s @ map wake (pending s)"
      using True by (simp add: s1_def mnextg_trace)
    have p1: "pending s1 = [m]" using True by (simp add: s1_def mnextg_pending)
    have ih: "trace (handoffs hs s1) = trace s1 @ map wake (butlast ([m] @ ws))
      \<and> pending (handoffs hs s1) = [last ([m] @ ws)]"
      using Cons.IH[of s1] unfolding w1 p1 ws_def[symmetric] by simp
    have wa: "waiters (h # hs) (waiting s) = m # ws"
      using True unfolding h ws_def w'_def by (simp only: waiters.simps if_True)
    have "length (pending s) \<le> 1" by (rule pending_length)
    hence bl: "butlast (pending s @ m # ws) = pending s @ butlast (m # ws)"
      by (simp add: butlast_append)
    have la: "last (pending s @ m # ws) = last (m # ws)" by simp
    show ?thesis
      unfolding wa using ih t1 bl la by (simp add: h s1_def[symmetric])
  next
    case False
    hence "(waiting s)(m := False) = waiting s" by (intro ext) simp
    hence w1: "waiting s1 = waiting s" by (simp add: s1_def mnextg_waiting)
    have t1: "trace s1 = trace s" using False by (simp add: s1_def mnextg_trace)
    have p1: "pending s1 = pending s" using False by (simp add: s1_def mnextg_pending)
    have wa: "waiters (h # hs) (waiting s) = waiters hs (waiting s)"
      using False by (simp add: h)
    show ?thesis
      unfolding wa using Cons.IH[of s1] by (simp add: h s1_def[symmetric] w1 t1 p1)
  qed
qed

lemma schedunlock_trace:
  "trace (schedunlock s) = trace s @ [Unlock] @ map wake (pending s)"
  by (simp add: schedunlock_def Let_def emit_def pending_def wake_def split: option.splits)

lemma waiters_set:
  "distinct (waiters hs w) \<and> set (waiters hs w) = {m \<in> fst ` set hs. w m}"
proof (induction hs arbitrary: w)
  case Nil
  then show ?case by simp
next
  case (Cons h hs)
  obtain m g where h: "h = (m, g)" by (cases h)
  define w' where "w' = w(m := False)"
  define A where "A = fst ` set hs"
  have e: "waiters (h # hs) w = (if w m then m # waiters hs w' else waiters hs w)"
    unfolding h w'_def by (simp only: waiters.simps)
  have d': "distinct (waiters hs w')" and s': "set (waiters hs w') = {x \<in> A. w' x}"
    using Cons.IH[of w'] by (simp_all add: A_def)
  have d: "distinct (waiters hs w)" and s: "set (waiters hs w) = {x \<in> A. w x}"
    using Cons.IH[of w] by (simp_all add: A_def)
  have c: "{x \<in> A. w' x} = {x \<in> A. w x} - {m}" by (auto simp: w'_def)
  have f: "fst ` set (h # hs) = insert m A" by (simp add: h A_def)
  show ?case
  proof (cases "w m")
    case True
    have "m \<notin> set (waiters hs w')" unfolding s' c by simp
    moreover have "insert m ({x \<in> A. w x} - {m}) = {x \<in> insert m A. w x}" using True by auto
    ultimately show ?thesis unfolding e f using True d' s' c by simp
  next
    case False
    hence "{x \<in> A. w x} = {x \<in> insert m A. w x}" by auto
    thus ?thesis unfolding e f using False d s by simp
  qed
qed


text \<open>
  Claim C5, as the code has it.  In a critical section that starts with
  \<open>mwakeup\<close> empty, each thread that a hand-off finds waiting is woken exactly
  once, in the order of the hand-offs.  Only the last of them is woken after
  the lock is released, by \<open>schedunlock\<close>; each one before is woken while the
  lock is held, by the \<open>mnextg\<close> that registers the next.  So \<open>schedunlock\<close>
  issues at most one wakeup, and no wakeup happens under the lock when at most
  one hand-off finds its thread waiting.
\<close>

theorem critical_section_wakeups:
  "mwakeup s = None \<Longrightarrow>
   trace (critical_section hs s)
     = trace s @ [Lock] @ map wake (butlast (waiters hs (waiting s))) @ [Unlock]
        @ map wake (if waiters hs (waiting s) = [] then [] else [last (waiters hs (waiting s))])
   \<and> mwakeup (critical_section hs s) = None
   \<and> distinct (waiters hs (waiting s))
   \<and> set (waiters hs (waiting s)) = {m \<in> fst ` set hs. waiting s m}"
proof -
  assume a: "mwakeup s = None"
  have p: "pending (schedlock s) = []" using a by (simp add: pending_def schedlock_def emit_def)
  have w: "waiting (schedlock s) = waiting s"
    by (rule ext) (simp add: waiting_def schedlock_def emit_def)
  have t: "trace (schedlock s) = trace s @ [Lock]" by (simp add: schedlock_def emit_def)
  have m: "mwakeup (schedunlock x) = None" for x
    by (simp add: schedunlock_def Let_def emit_def split: option.splits)
  show ?thesis
    using handoffs_trace[of hs "schedlock s"] waiters_set[of hs "waiting s"]
    by (simp add: critical_section_def schedunlock_trace p w t m)
qed


text \<open>
  It is not so that no \<open>notewakeup\<close> on a \<open>havenextg\<close> note happens under the lock,
  nor that a critical section issues at most one: two hand-offs to waiting
  threads wake the first thread before the unlock.
\<close>

theorem critical_section_counterexample:
  "mwakeup w2 = None
   \<and> trace (critical_section [(1, 1), (2, 2)] w2)
       = [Lock, Notewakeup (Havenextg 1), Unlock, Notewakeup (Havenextg 2)]"
  by (simp add: critical_section_def schedlock_def schedunlock_def mnextg_def w2_def
      zero_state_def zero_M_def Let_def emit_def upd_m_def)

theorem critical_section_wakeups_witness:
  "mwakeup w2 = None
   \<and> trace (critical_section [(1, 1), (2, 2), (1, 3)] w2)
       = [Lock, wake 1, Unlock, wake 2]
   \<and> trace (critical_section [(1, 1)] w2) = [Lock, Unlock, wake 1]"
proof -
  have a: "mwakeup w2 = None" "trace w2 = []" by (simp_all add: w2_def zero_state_def)
  have b: "waiting w2 = (\<lambda>m. m = 1 \<or> m = 2)"
    by (rule ext) (simp add: waiting_def w2_def zero_state_def zero_M_def)
  show ?thesis
    using critical_section_wakeups[OF a(1), of "[(1, 1), (2, 2), (1, 3)]"]
      critical_section_wakeups[OF a(1), of "[(1, 1)]"]
    by (simp add: a b)
qed

subsection \<open>The status switch of schedule\<close>

lemma restacked_refl: "restacked gp s s"
  unfolding restacked_def
  by (rule exI[where x = "g_stackbase (gs s gp)"], rule exI[where x = "g_stackguard (gs s gp)"],
      rule exI[where x = "trace s"]) simp

lemma restacked_trans: "restacked gp s s1 \<Longrightarrow> restacked gp s1 s2 \<Longrightarrow> restacked gp s s2"
  unfolding restacked_def by (elim exE) (simp, blast)

lemma unwind_step_restacked:
  "restacked gp s
     (let s' = upd_g gp (\<lambda>x. x\<lparr>g_stackbase := a\<rparr>) s;
          s' = upd_g gp (\<lambda>x. x\<lparr>g_stackguard := c\<rparr>) s'
      in if f then emit e s' else s')"
  unfolding restacked_def Let_def upd_g_def emit_def
  by (rule exI[where x = a], rule exI[where x = c],
      rule exI[where x = "if f then trace s @ [e] else trace s"]) simp


lemma unwindstack_loop_restacked:
  "unwindstack_loop b gp sp s = Some s' \<Longrightarrow> restacked gp s s'"
proof (induct rule: unwindstack_loop.raw_induct[rotated, consumes 1, case_names step])
  case (step f b gp sp s s')
  note IH = step(1) and prem = step(2)
  let ?top = "g_stackbase (gs s gp)"
  let ?s2 = "(let t = upd_g gp (\<lambda>x. x\<lparr>g_stackbase := st_stackbase (stktops s ?top)\<rparr>) s;
                 t = upd_g gp (\<lambda>x. x\<lparr>g_stackguard := st_stackguard (stktops s ?top)\<rparr>) t
             in if st_free (stktops s ?top) \<noteq> 0
                then emit (Stackfree (g_stackguard (gs s gp) - scast (StackGuard b))
                       (st_free (stktops s ?top))) t
                else t)"
  have r2: "restacked gp s ?s2" by (rule unwind_step_restacked)
  define c1 where "c1 = (?top \<noteq> 0 \<and> st_stackbase (stktops s ?top) \<noteq> 0)"
  define c2 where "c2 = (g_stackguard (gs s gp) - scast (StackGuard b) \<le> sp
     \<and> sp < g_stackbase (gs s gp))"
  have e: "(if c1 then (if c2 then Some s else f b gp sp ?s2) else Some s) = Some s'"
    using prem unfolding c1_def c2_def Let_def .
  have "s' = s \<or> f b gp sp ?s2 = Some s'"
    using e by (cases c1; cases c2) simp_all
  then consider "s' = s" | "f b gp sp ?s2 = Some s'" by blast
  thus ?case
  proof cases
    case A: 1
    then show ?thesis by (simp add: restacked_refl)
  next
    case B: 2
    have "restacked gp ?s2 s'" by (rule IH[OF B])
    thus ?thesis using r2 restacked_trans by blast
  qed
qed



lemma fields_32768: "atomic_mcpu 32768 = 0" "atomic_mcpumax 32768 = 1"
  "atomic_waitstop 32768 = 0" "atomic_gwaiting 32768 = 0"
  by (simp_all add: atomic_mcpu_def atomic_mcpumax_def atomic_waitstop_def atomic_gwaiting_def
      shift_defs)







subsection \<open>Entering a system call\<close>

lemma fields_pred:
  assumes "atomic_mcpu v \<noteq> 0"
  shows "unat (atomic_mcpu (v - 1)) = unat (atomic_mcpu v) - 1"
    and "atomic_mcpumax (v - 1) = atomic_mcpumax v"
    and "atomic_waitstop (v - 1) = atomic_waitstop v"
    and "atomic_gwaiting (v - 1) = atomic_gwaiting v"
proof -
  note b = fields_bounds[of v]
  have pos: "0 < unat (atomic_mcpu v)" using assms by (simp add: unat_gt_0)
  hence lt: "unat (atomic_mcpu v) - 1 < 32768" using b by simp
  have "v \<noteq> 0" using assms by (auto simp: atomic_mcpu_take_bit)
  hence "unat (v - 1) = unat v - 1" by (rule unat_minus_one)
  hence u: "unat (v - 1) = (unat (atomic_mcpu v) - 1) + 32768 * unat (atomic_mcpumax v)
      + 1073741824 * unat (atomic_waitstop v) + 2147483648 * unat (atomic_gwaiting v)"
    using unat_fields[of v] pos by linarith
  note f = fields_unique[OF u lt b(2) b(3) b(4)]
  show "unat (atomic_mcpu (v - 1)) = unat (atomic_mcpu v) - 1" by (rule f)
  show "atomic_mcpumax (v - 1) = atomic_mcpumax v" using f(2) by (rule word_eq_unatI)
  show "atomic_waitstop (v - 1) = atomic_waitstop v" using f(3) by (rule word_eq_unatI)
  show "atomic_gwaiting (v - 1) = atomic_gwaiting v" using f(4) by (rule word_eq_unatI)
qed

lemma fields_clear_waitstop:
  assumes "atomic_waitstop v \<noteq> 0"
  shows "atomic_mcpu (v - 1073741824) = atomic_mcpu v"
    and "atomic_mcpumax (v - 1073741824) = atomic_mcpumax v"
    and "atomic_waitstop (v - 1073741824) = 0"
    and "atomic_gwaiting (v - 1073741824) = atomic_gwaiting v"
proof -
  note b = fields_bounds[of v]
  have "unat (atomic_waitstop v) \<noteq> 0" using assms by (simp add: unat_eq_zero)
  hence one: "unat (atomic_waitstop v) = 1" using b(3) by linarith
  hence ge: "1073741824 \<le> unat v" using unat_fields[of v] by linarith
  hence "(1073741824 :: 32 word) \<le> v" by (simp add: word_le_nat_alt)
  hence "unat (v - 1073741824) = unat v - unat (1073741824 :: 32 word)" by (rule unat_sub)
  hence u: "unat (v - 1073741824) = unat (atomic_mcpu v) + 32768 * unat (atomic_mcpumax v)
      + 1073741824 * 0 + 2147483648 * unat (atomic_gwaiting v)"
    using unat_fields[of v] one by simp
  have z: "(0::nat) < 2" by simp
  note f = fields_unique[OF u b(1) b(2) z b(4)]
  show "atomic_mcpu (v - 1073741824) = atomic_mcpu v" using f(1) by (rule word_eq_unatI)
  show "atomic_mcpumax (v - 1073741824) = atomic_mcpumax v" using f(2) by (rule word_eq_unatI)
  show "atomic_waitstop (v - 1073741824) = 0" using f(3) by (simp add: unat_eq_zero)
  show "atomic_gwaiting (v - 1073741824) = atomic_gwaiting v" using f(4) by (rule word_eq_unatI)
qed

lemma fields_incr:
  assumes "unat (atomic_mcpu v) < 32767"
  shows "unat (atomic_mcpu (v + 1)) = unat (atomic_mcpu v) + 1"
    and "atomic_mcpumax (v + 1) = atomic_mcpumax v"
    and "atomic_waitstop (v + 1) = atomic_waitstop v"
    and "atomic_gwaiting (v + 1) = atomic_gwaiting v"
proof -
  note b = fields_bounds[of v]
  have lt: "unat (atomic_mcpu v) + 1 < 32768" using assms by simp
  have "unat v + 1 < 4294967296" using unat_fields[of v] b lt by linarith
  hence "unat (v + 1) = unat v + 1" by (simp add: unat_word_ariths)
  hence u: "unat (v + 1) = (unat (atomic_mcpu v) + 1) + 32768 * unat (atomic_mcpumax v)
      + 1073741824 * unat (atomic_waitstop v) + 2147483648 * unat (atomic_gwaiting v)"
    using unat_fields[of v] by linarith
  note f = fields_unique[OF u lt b(2) b(3) b(4)]
  show "unat (atomic_mcpu (v + 1)) = unat (atomic_mcpu v) + 1" by (rule f)
  show "atomic_mcpumax (v + 1) = atomic_mcpumax v" using f(2) by (rule word_eq_unatI)
  show "atomic_waitstop (v + 1) = atomic_waitstop v" using f(3) by (rule word_eq_unatI)
  show "atomic_gwaiting (v + 1) = atomic_gwaiting v" using f(4) by (rule word_eq_unatI)
qed

lemma mnextg_prefix: "prefix (trace s) (trace (mnextg m g s))"
  by (simp add: mnextg_def Let_def upd_m_def emit_def split: option.splits)

lemma prefix_mnextgI: "prefix t (trace x) \<Longrightarrow> prefix t (trace (mnextg m g x))"
  using mnextg_prefix[of x m g] by (rule prefix_order.trans[rotated])

lemma gget_trace: "trace (snd (gget s)) = trace s"
  by (simp add: gget_def Let_def xadd_def upd_m_def split: option.splits)

lemma mget_trace: "trace (snd (mget g s)) = trace s"
  by (simp add: mget_def split: option.splits)

lemma canaddmcpu_trace: "trace (snd (canaddmcpu s)) = trace s"
  by (simp add: canaddmcpu_eq)

lemma matchmg_body_prefix:
  assumes "matchmg_body b s = Inr s'"
  shows "prefix (trace s) (trace s')"
proof -
  obtain g s1 where g: "gget s = (g, s1)" by (cases "gget s")
  have t1: "trace s1 = trace s" using gget_trace[of s] g by simp
  obtain ga where ga: "g = Some ga" using assms g by (cases g) (auto simp: matchmg_body_def)
  obtain m s2 where m: "mget ga s1 = (m, s2)" by (cases "mget ga s1")
  have t2: "trace s2 = trace s" using mget_trace[of ga s1] m t1 by simp
  show ?thesis
  proof (cases m)
    case (Some ma)
    hence "s' = mnextg ma ga s2" using assms g ga m by (simp add: matchmg_body_def)
    thus ?thesis using mnextg_prefix[of s2 ma ga] t2 by simp
  next
    case None
    show ?thesis
      using assms g ga m None t2
      by (auto simp: matchmg_body_def Let_def malloc_M_def malg_def mcommoninit_def upd_m_def
          emit_def split: if_splits intro!: prefix_mnextgI)
  qed
qed

lemma matchmg_loop_prefix:
  "matchmg_loop b s = Inr s' \<Longrightarrow> prefix (trace s) (trace s')"
proof (induction b s arbitrary: s' rule: matchmg_loop.induct)
  case (1 b s)
  show ?case
  proof (cases "haveg s \<and> fst (canaddmcpu s)")
    case False
    thus ?thesis using "1.prems"
      by (subst (asm) matchmg_loop.simps) (auto simp: canaddmcpu_trace split: if_splits)
  next
    case True
    then obtain s1 where b1: "matchmg_body b (snd (canaddmcpu s)) = Inr s1"
      and l: "matchmg_loop b s1 = Inr s'"
      using "1.prems" by (subst (asm) matchmg_loop.simps) (auto split: sum.splits)
    have "prefix (trace s) (trace s1)"
      using matchmg_body_prefix[OF b1] by (simp add: canaddmcpu_trace)
    moreover have "prefix (trace s1) (trace s')" using True b1 l by (intro "1.IH") auto
    ultimately show ?thesis by (rule prefix_order.trans)
  qed
qed

lemma matchmg_prefix: "matchmg b s = Inr s' \<Longrightarrow> prefix (trace s) (trace s')"
  by (auto simp: matchmg_def dest: matchmg_loop_prefix split: if_splits)


lemma syscall_save_simps:
  "trace (syscall_save sp pc s) = trace s"
  "atomic (syscall_save sp pc s) = atomic s"
  "g_gcsp (gs (syscall_save sp pc s) (g_reg s)) = sp"
  "g_gcguard (gs (syscall_save sp pc s) (g_reg s)) = g_stackguard (gs s (g_reg s))"
  "g_gcstack (gs (syscall_save sp pc s) (g_reg s)) = g_stackbase (gs s (g_reg s))"
  "g_status (gs (syscall_save sp pc s) (g_reg s)) = Gsyscall"
  by (simp_all add: syscall_save_def gosave_def Let_def upd_g_def)

lemma entersyscall_eq:
  assumes "predawn s = 0"
    and "\<not> (sp < g_stackguard (gs s (g_reg s)) - scast (StackGuard b)
            \<or> g_stackbase (gs s (g_reg s)) < sp)"
  shows "entersyscall b sp pc s =
     (let s1 = (syscall_save sp pc s)\<lparr>atomic := atomic s - 1\<rparr>;
          v = atomic s - 1
      in if atomic_gwaiting v = 0
            \<and> \<not> (atomic_waitstop v \<noteq> 0 \<and> atomic_mcpu v \<le> atomic_mcpumax v)
         then Inr s1 else entersyscall_slow b sp pc s1)"
  using assms
  by (auto simp: entersyscall_def Let_def syscall_save_simps xadd_def delta_simps not_le)

lemma entersyscall_slow_eq:
  "entersyscall_slow b sp pc s =
     bind_r (if atomic_gwaiting (atomic s) \<noteq> 0 then matchmg b (schedlock s)
             else Inr (schedlock s))
       (\<lambda>s2. Inr (schedunlock (gosave sp pc
          (if atomic_waitstop (atomic s2) \<noteq> 0
              \<and> atomic_mcpu (atomic s2) \<le> atomic_mcpumax (atomic s2)
           then emit (Notewakeup Stopped) (s2\<lparr>atomic := atomic s2 - 1073741824\<rparr>)
           else s2))))"
  by (simp add: entersyscall_slow_def Let_def bind_r_def atomicload_def schedlock_def emit_def
      xadd_def delta_simps split: sum.splits)

lemma schedunlock_prefix: "prefix (trace s) (trace (schedunlock s))"
  by (simp add: schedunlock_def Let_def emit_def split: option.splits)

lemma entersyscall_slow_trace:
  assumes "entersyscall_slow b sp pc s = Inr s'"
  shows "prefix (trace s @ [Lock]) (trace s')"
proof -
  obtain s2 where m: "(if atomic_gwaiting (atomic s) \<noteq> 0 then matchmg b (schedlock s)
             else Inr (schedlock s)) = Inr s2"
    and e: "s' = schedunlock (gosave sp pc
          (if atomic_waitstop (atomic s2) \<noteq> 0
              \<and> atomic_mcpu (atomic s2) \<le> atomic_mcpumax (atomic s2)
           then emit (Notewakeup Stopped) (s2\<lparr>atomic := atomic s2 - 1073741824\<rparr>)
           else s2))"
    using assms unfolding entersyscall_slow_eq bind_r_def by (auto split: sum.splits)
  have "prefix (trace (schedlock s)) (trace s2)"
    using m by (auto dest: matchmg_prefix split: if_splits)
  hence p2: "prefix (trace s @ [Lock]) (trace s2)" by (simp add: schedlock_def emit_def)
  have "prefix (trace s2) (trace s')"
    unfolding e
    by (rule prefix_order.trans[OF _ schedunlock_prefix]) (simp add: gosave_def upd_g_def emit_def)
  thus ?thesis using p2 by (rule prefix_order.trans[rotated])
qed

lemma lock_in_new_events:
  "prefix (t @ [Lock]) t' \<Longrightarrow> Lock \<in> set (drop (length t) t')"
  by (auto simp: prefix_def)

text \<open>
  Claim C2. \<^verbatim>\<open>runtime\<cdot>entersyscall\<close> outside the predawn phase, on a stack pointer
  inside the segment: it subtracts one from the atomic word (a decrement of the mcpu field
  alone when that field is not zero). With \<open>v\<close> the word after the decrement, it returns
  with no event at all (no lock taken) exactly when gwaiting is clear in \<open>v\<close> and it is not
  the case that waitstop is set with mcpu \<le> mcpumax; otherwise it takes the scheduler lock,
  runs \<^verbatim>\<open>matchmg\<close> if gwaiting is set in \<open>v\<close>, and then, if the word re-read under the
  lock has waitstop set with mcpu \<le> mcpumax, clears waitstop (subtracting
  \<open>1 << waitstopShift\<close>, which changes that bit alone) and wakes the stopped note, saves the
  context again and unlocks.
\<close>
theorem entersyscall_paths:
  assumes "predawn s = 0"
    and "\<not> (sp < g_stackguard (gs s (g_reg s)) - scast (StackGuard b)
            \<or> g_stackbase (gs s (g_reg s)) < sp)"
  shows "let s1 = (syscall_save sp pc s)\<lparr>atomic := atomic s - 1\<rparr>;
             v = atomic s - 1;
             fast = (atomic_gwaiting v = 0
                     \<and> \<not> (atomic_waitstop v \<noteq> 0 \<and> atomic_mcpu v \<le> atomic_mcpumax v))
         in (fast \<longrightarrow> entersyscall b sp pc s = Inr s1 \<and> trace s1 = trace s)
          \<and> (\<not> fast \<longrightarrow> entersyscall b sp pc s =
                bind_r (if atomic_gwaiting v \<noteq> 0 then matchmg b (schedlock s1)
                        else Inr (schedlock s1))
                  (\<lambda>s2. Inr (schedunlock (gosave sp pc
                     (if atomic_waitstop (atomic s2) \<noteq> 0
                         \<and> atomic_mcpu (atomic s2) \<le> atomic_mcpumax (atomic s2)
                      then emit (Notewakeup Stopped) (s2\<lparr>atomic := atomic s2 - 1073741824\<rparr>)
                      else s2)))))
          \<and> (\<forall>s'. entersyscall b sp pc s = Inr s' \<longrightarrow>
                (Lock \<in> set (drop (length (trace s)) (trace s'))) = (\<not> fast))
          \<and> (atomic_mcpu (atomic s) \<noteq> 0 \<longrightarrow>
                unat (atomic_mcpu v) = unat (atomic_mcpu (atomic s)) - 1
                \<and> atomic_mcpumax v = atomic_mcpumax (atomic s)
                \<and> atomic_waitstop v = atomic_waitstop (atomic s)
                \<and> atomic_gwaiting v = atomic_gwaiting (atomic s))
          \<and> (\<forall>w. atomic_waitstop w \<noteq> 0 \<longrightarrow>
                atomic_waitstop (w - 1073741824) = 0
                \<and> atomic_mcpu (w - 1073741824) = atomic_mcpu w
                \<and> atomic_mcpumax (w - 1073741824) = atomic_mcpumax w
                \<and> atomic_gwaiting (w - 1073741824) = atomic_gwaiting w)"
proof -
  define v where "v = atomic s - 1"
  define s1 where "s1 = (syscall_save sp pc s)\<lparr>atomic := v\<rparr>"
  define fast where "fast = (atomic_gwaiting v = 0
       \<and> \<not> (atomic_waitstop v \<noteq> 0 \<and> atomic_mcpu v \<le> atomic_mcpumax v))"
  have "entersyscall b sp pc s =
      (if atomic_gwaiting v = 0
            \<and> \<not> (atomic_waitstop v \<noteq> 0 \<and> atomic_mcpu v \<le> atomic_mcpumax v)
       then Inr s1 else entersyscall_slow b sp pc s1)"
    unfolding s1_def v_def using entersyscall_eq[OF assms, of pc] unfolding Let_def .
  hence e: "entersyscall b sp pc s = (if fast then Inr s1 else entersyscall_slow b sp pc s1)"
    unfolding fast_def .
  have a1: "atomic s1 = v" "trace s1 = trace s"
    by (simp_all add: s1_def v_def syscall_save_simps)
  have 1: "fast \<longrightarrow> entersyscall b sp pc s = Inr s1 \<and> trace s1 = trace s"
    using e a1 by simp
  have 2: "\<not> fast \<longrightarrow> entersyscall b sp pc s =
                bind_r (if atomic_gwaiting v \<noteq> 0 then matchmg b (schedlock s1)
                        else Inr (schedlock s1))
                  (\<lambda>s2. Inr (schedunlock (gosave sp pc
                     (if atomic_waitstop (atomic s2) \<noteq> 0
                         \<and> atomic_mcpu (atomic s2) \<le> atomic_mcpumax (atomic s2)
                      then emit (Notewakeup Stopped) (s2\<lparr>atomic := atomic s2 - 1073741824\<rparr>)
                      else s2))))"
    using e entersyscall_slow_eq[of b sp pc s1] by (simp add: a1)
  have 3: "\<forall>s'. entersyscall b sp pc s = Inr s' \<longrightarrow>
                (Lock \<in> set (drop (length (trace s)) (trace s'))) = (\<not> fast)"
  proof (intro allI impI)
    fix s' assume r: "entersyscall b sp pc s = Inr s'"
    show "(Lock \<in> set (drop (length (trace s)) (trace s'))) = (\<not> fast)"
    proof (cases fast)
      case True
      hence "s' = s1" using r e by simp
      thus ?thesis using True a1 by simp
    next
      case False
      hence "entersyscall_slow b sp pc s1 = Inr s'" using r e by simp
      hence "prefix (trace s @ [Lock]) (trace s')"
        using entersyscall_slow_trace[of b sp pc s1 s'] a1 by simp
      thus ?thesis using False by (simp add: lock_in_new_events)
    qed
  qed
  have 4: "atomic_mcpu (atomic s) \<noteq> 0 \<longrightarrow>
                unat (atomic_mcpu v) = unat (atomic_mcpu (atomic s)) - 1
                \<and> atomic_mcpumax v = atomic_mcpumax (atomic s)
                \<and> atomic_waitstop v = atomic_waitstop (atomic s)
                \<and> atomic_gwaiting v = atomic_gwaiting (atomic s)"
    by (simp add: v_def fields_pred)
  have 5: "\<forall>w. atomic_waitstop w \<noteq> 0 \<longrightarrow>
                atomic_waitstop (w - 1073741824) = 0
                \<and> atomic_mcpu (w - 1073741824) = atomic_mcpu w
                \<and> atomic_mcpumax (w - 1073741824) = atomic_mcpumax w
                \<and> atomic_gwaiting (w - 1073741824) = atomic_gwaiting w"
    by (simp add: fields_clear_waitstop)
  show ?thesis
    unfolding Let_def v_def[symmetric] s1_def[symmetric] fast_def[symmetric]
    by (rule conjI[OF 1 conjI[OF 2 conjI[OF 3 conjI[OF 4 5]]]])
qed

lemma fields_examples:
  "atomic_mcpu 3221258240 = 0" "atomic_mcpumax 3221258240 = 1"
  "atomic_waitstop 3221258240 = 1" "atomic_gwaiting 3221258240 = 1"
  "atomic_mcpu 3221258241 = 1" "atomic_mcpumax 3221258241 = 1"
  "atomic_mcpu 1073774593 = 1" "atomic_mcpumax 1073774593 = 1"
  "atomic_waitstop 1073774593 = 1" "atomic_gwaiting 1073774593 = 0"
  by (simp_all add: atomic_mcpu_def atomic_mcpumax_def atomic_waitstop_def atomic_gwaiting_def
      shift_defs)

lemma not_mask_consts:
  "NOT (mask 31) = (2147483648 :: 32 word)" "NOT (mask 30) = (3221225472 :: 32 word)"
  by (simp_all add: mask_eq_exp_minus_1 not_eq_complement)

theorem entersyscall_paths_witness:
  "entersyscall build0 26000 77 (sys_ex 32769)
     = Inr ((syscall_save 26000 77 (sys_ex 32769))\<lparr>atomic := 32768\<rparr>)
   \<and> trace ((syscall_save 26000 77 (sys_ex 32769))\<lparr>atomic := 32768\<rparr>) = []
   \<and> (\<exists>s'. entersyscall build0 26000 77 sys_ex_queued = Inr s'
          \<and> trace s' = [Lock, Newosproc 10, Notewakeup Stopped, Unlock]
          \<and> atomic s' = 32769 \<and> m_nextg (ms s' 10) = Some 2 \<and> ghead s' = None)"
proof -
  have h: "predawn (sys_ex a) = 0" "predawn sys_ex_queued = 0"
    "\<not> (26000 < g_stackguard (gs (sys_ex a) (g_reg (sys_ex a))) - scast (StackGuard build0)
            \<or> g_stackbase (gs (sys_ex a) (g_reg (sys_ex a))) < 26000)"
    "\<not> (26000 < g_stackguard (gs sys_ex_queued (g_reg sys_ex_queued)) - scast (StackGuard build0)
            \<or> g_stackbase (gs sys_ex_queued (g_reg sys_ex_queued)) < 26000)" for a
    by (simp_all add: sys_ex_def sys_ex_queued_def zero_state_def zero_G_def build0_def)
  have at: "atomic (sys_ex a) = a" "trace (sys_ex a) = []" "atomic sys_ex_queued = 3221258241"
    for a by (simp_all add: sys_ex_def sys_ex_queued_def zero_state_def)
  have a: "entersyscall build0 26000 77 (sys_ex 32769)
     = Inr ((syscall_save 26000 77 (sys_ex 32769))\<lparr>atomic := 32768\<rparr>)
   \<and> trace ((syscall_save 26000 77 (sys_ex 32769))\<lparr>atomic := 32768\<rparr>) = []"
    using entersyscall_paths[OF h(1) h(3), of 32769 77]
    by (simp add: Let_def at fields_32768)
  let ?R = "bind_r (matchmg build0 (schedlock ((syscall_save 26000 77 sys_ex_queued)\<lparr>atomic := 3221258240\<rparr>)))
        (\<lambda>s2. Inr (schedunlock (gosave 26000 77
           (if atomic_waitstop (atomic s2) \<noteq> 0
               \<and> atomic_mcpu (atomic s2) \<le> atomic_mcpumax (atomic s2)
            then emit (Notewakeup Stopped) (s2\<lparr>atomic := atomic s2 - 1073741824\<rparr>)
            else s2))))"
  have eq: "entersyscall build0 26000 77 sys_ex_queued = ?R"
    using entersyscall_paths[OF h(2) h(4), of 77]
    by (simp add: Let_def at fields_examples)
  have ev: "\<exists>s'. ?R = Inr s'
          \<and> trace s' = [Lock, Newosproc 10, Notewakeup Stopped, Unlock]
          \<and> atomic s' = 32769 \<and> m_nextg (ms s' 10) = Some 2 \<and> ghead s' = None"
    by (simp add: sys_ex_queued_def sys_ex_def zero_state_def zero_G_def zero_M_def build0_def
        syscall_save_def gosave_def schedlock_def schedunlock_def matchmg_def
        matchmg_loop.simps matchmg_body_def haveg_def canaddmcpu_eq gget_def mget_def
        malloc_M_def mcommoninit_def malg_def mnextg_def bind_r_def Let_def emit_def upd_g_def
        upd_m_def xadd_def delta_simps atomic_mcpu_def atomic_mcpumax_def atomic_waitstop_def
        atomic_gwaiting_def shift_defs not_mask_consts)
  have b: "\<exists>s'. entersyscall build0 26000 77 sys_ex_queued = Inr s'
          \<and> trace s' = [Lock, Newosproc 10, Notewakeup Stopped, Unlock]
          \<and> atomic s' = 32769 \<and> m_nextg (ms s' 10) = Some 2 \<and> ghead s' = None"
    unfolding eq by (rule ev)
  show ?thesis using a b by blast
qed

subsection \<open>Leaving a system call\<close>

lemma gput_predawn: "gput g s = Inr s' \<Longrightarrow> predawn s' = predawn s"
  by (auto simp: gput_def Let_def canaddmcpu_eq mnextg_def upd_m_def upd_g_def xadd_def emit_def
      split: if_splits option.splits)

lemma readylocked_eq:
  assumes "predawn s = 0" and "g_m (gs s g) = None"
    and "g_status (gs s g) \<noteq> Grunnable" and "g_status (gs s g) \<noteq> Grunning"
  shows "readylocked b g s = bind_r (gput g (upd_g g (\<lambda>x. x\<lparr>g_status := Grunnable\<rparr>) s)) (matchmg b)"
proof -
  let ?s = "upd_g g (\<lambda>x. x\<lparr>g_status := Grunnable\<rparr>) s"
  have p: "predawn ?s = 0" using assms(1) by (simp add: upd_g_def)
  have "bind_r (gput g ?s) (\<lambda>s. if predawn s = 0 then matchmg b s else Inr s)
      = bind_r (gput g ?s) (matchmg b)"
    using gput_predawn[of g ?s] p by (cases "gput g ?s") (simp_all add: bind_r_def)
  thus ?thesis using assms by (simp add: readylocked_def Let_def)
qed

lemma exitsyscall_eq:
  assumes "predawn s = 0"
  shows "exitsyscall b s =
     (if m_profilehz (ms s (m_reg s)) = profilehz s
         \<and> atomic_mcpu (atomic s + 1) \<le> atomic_mcpumax (atomic s + 1)
      then Some (Inr (upd_g (g_reg s) (\<lambda>x. x\<lparr>g_gcstack := 0\<rparr>)
                  (upd_g (g_reg s) (\<lambda>x. x\<lparr>g_status := Grunning\<rparr>) (s\<lparr>atomic := atomic s + 1\<rparr>))))
      else map_option Inl
             (gosched b (upd_g (g_reg s) (\<lambda>x. x\<lparr>g_readyonstop := True\<rparr>)
                (s\<lparr>atomic := atomic s + 1\<rparr>))))"
  using assms
  by (simp add: exitsyscall_def xadd_def Let_def upd_g_def delta_simps split: option.splits)

lemma gosched_yield:
  assumes "m_locks (ms s (m_reg s)) = 0" and "m_g0 (ms s (m_reg s)) = Some g0"
    and "g0 \<noteq> g_reg s" and "predawn s = 0"
    and "g_status (gs s (g_reg s)) = Gsyscall" and "g_readyonstop (gs s (g_reg s))"
    and "\<not> maxgomaxprocs < atomic_mcpu (atomic s - 1)"
  shows "gosched b s =
     (case bind_r (gput (g_reg s) (yielded (g_reg s) g0 s)) (matchmg b) of
        Inl e \<Rightarrow> Some e
      | Inr s4 \<Rightarrow> (case nextgandunlock b s4 of
                     Inl e \<Rightarrow> Some e
                   | Inr (gp, s5) \<Rightarrow> Some (schedule_run b gp s5)))"
proof -
  let ?g = "g_reg s"
  let ?s2 = "upd_g ?g (\<lambda>x. x\<lparr>g_readyonstop := False\<rparr>)
     ((upd_g ?g (\<lambda>x. x\<lparr>g_m := None\<rparr>) (schedlock (s\<lparr>g_reg := g0\<rparr>)))
        \<lparr>grunning := grunning s - 1, atomic := atomic s - 1\<rparr>)"
  have y: "upd_g ?g (\<lambda>x. x\<lparr>g_status := Grunnable\<rparr>) ?s2 = yielded ?g g0 s"
    by (simp add: yielded_def upd_g_def schedlock_def emit_def)
  have r: "readylocked b ?g ?s2 = bind_r (gput ?g (yielded ?g g0 s)) (matchmg b)"
    unfolding y[symmetric] using assms
    by (intro readylocked_eq) (simp_all add: upd_g_def schedlock_def emit_def)
  have sp: "schedule_prev b ?g (schedlock (s\<lparr>g_reg := g0\<rparr>)) = Some (readylocked b ?g ?s2)"
    using assms
    by (simp add: schedule_prev_def schedule_status_def Let_def xadd_def delta_simps upd_g_def
        schedlock_def emit_def)
  show ?thesis
    using assms(1-3) unfolding r[symmetric]
    by (auto simp: gosched_def schedule_def Let_def sp split: sum.splits prod.splits)
qed


lemma runq_yielded:
  assumes "runq s xs" and "g \<notin> set xs"
  shows "runq (yielded g g0 (upd_g g (\<lambda>x. x\<lparr>g_readyonstop := True\<rparr>) (s\<lparr>atomic := v\<rparr>))) xs"
  using assms by (simp add: runq_def yielded_def upd_g_def gchain_upd_notin)

text \<open>
  Claim C3. \<^verbatim>\<open>runtime\<cdot>exitsyscall\<close> outside the predawn phase adds one to the atomic word
  (an increment of the mcpu field alone, short of the field's overflow).  If the thread's
  profiler rate is the scheduler's and mcpu \<le> mcpumax in the word after the increment, it
  sets the status of the goroutine to \<open>Grunning\<close>, clears \<open>gcstack\<close> and returns, with no
  event (no lock).  Otherwise it sets \<open>readyonstop\<close> and calls \<open>gosched\<close>; for a goroutine in
  \<open>Gsyscall\<close> on a thread that holds no locks, \<open>schedule\<close> takes the lock, subtracts one from
  the atomic word once, so that the word is again the one before the call, clears
  \<open>readyonstop\<close>, makes the goroutine \<open>Grunnable\<close> and hands it to \<open>gput\<close>, which for a
  goroutine that is neither wired to a thread nor an idle goroutine appends it to the run
  queue; \<open>matchmg\<close> and \<open>nextgandunlock\<close> follow.
\<close>
theorem exitsyscall_paths:
  assumes "predawn s = 0"
  shows "let g = g_reg s; m = m_reg s; v = atomic s + 1;
             fast = (m_profilehz (ms s m) = profilehz s \<and> atomic_mcpu v \<le> atomic_mcpumax v);
             s3 = yielded g g0 (upd_g g (\<lambda>x. x\<lparr>g_readyonstop := True\<rparr>) (s\<lparr>atomic := v\<rparr>))
         in (unat (atomic_mcpu (atomic s)) < 32767 \<longrightarrow>
                unat (atomic_mcpu v) = unat (atomic_mcpu (atomic s)) + 1
                \<and> atomic_mcpumax v = atomic_mcpumax (atomic s)
                \<and> atomic_waitstop v = atomic_waitstop (atomic s)
                \<and> atomic_gwaiting v = atomic_gwaiting (atomic s))
          \<and> (fast \<longrightarrow>
                exitsyscall b s = Some (Inr (upd_g g (\<lambda>x. x\<lparr>g_status := Grunning, g_gcstack := 0\<rparr>)
                                               (s\<lparr>atomic := v\<rparr>))))
          \<and> (\<not> fast \<longrightarrow>
                exitsyscall b s = map_option Inl
                   (gosched b (upd_g g (\<lambda>x. x\<lparr>g_readyonstop := True\<rparr>) (s\<lparr>atomic := v\<rparr>))))
          \<and> (\<not> fast \<and> m_locks (ms s m) = 0 \<and> m_g0 (ms s m) = Some g0 \<and> g0 \<noteq> g
               \<and> g_status (gs s g) = Gsyscall \<and> atomic_mcpu (atomic s) \<le> maxgomaxprocs \<longrightarrow>
                exitsyscall b s =
                  (case bind_r (gput g s3) (matchmg b) of
                     Inl e \<Rightarrow> Some (Inl e)
                   | Inr s4 \<Rightarrow> (case nextgandunlock b s4 of
                                  Inl e \<Rightarrow> Some (Inl e)
                                | Inr (gp, s5) \<Rightarrow> Some (Inl (schedule_run b gp s5)))))
          \<and> atomic s3 = v - 1 \<and> atomic s3 = atomic s
          \<and> g_status (gs s3 g) = Grunnable \<and> \<not> g_readyonstop (gs s3 g)
          \<and> trace s3 = trace s @ [Lock]
          \<and> (\<forall>xs. runq s xs \<and> g \<notin> set xs \<and> Suc (length xs) < 2147483647
                   \<and> g_lockedm (gs s g) = None \<and> g_idlem (gs s g) = None \<longrightarrow>
                (\<exists>s'. gput g s3 = Inr s' \<and> runq s' (xs @ [g])
                      \<and> atomic s' = (if xs = [] then atomic s + 2147483648 else atomic s)))"
proof -
  define g where "g = g_reg s"
  define m where "m = m_reg s"
  define v where "v = atomic s + 1"
  define fast where
    "fast = (m_profilehz (ms s m) = profilehz s \<and> atomic_mcpu v \<le> atomic_mcpumax v)"
  define sy where "sy = upd_g g (\<lambda>x. x\<lparr>g_readyonstop := True\<rparr>) (s\<lparr>atomic := v\<rparr>)"
  define s3 where "s3 = yielded g g0 sy"
  have e: "exitsyscall b s =
     (if fast then Some (Inr (upd_g g (\<lambda>x. x\<lparr>g_gcstack := 0\<rparr>)
                  (upd_g g (\<lambda>x. x\<lparr>g_status := Grunning\<rparr>) (s\<lparr>atomic := v\<rparr>))))
      else map_option Inl (gosched b sy))"
    unfolding fast_def sy_def g_def m_def v_def by (rule exitsyscall_eq[OF assms])
  have 1: "unat (atomic_mcpu (atomic s)) < 32767 \<longrightarrow>
                unat (atomic_mcpu v) = unat (atomic_mcpu (atomic s)) + 1
                \<and> atomic_mcpumax v = atomic_mcpumax (atomic s)
                \<and> atomic_waitstop v = atomic_waitstop (atomic s)
                \<and> atomic_gwaiting v = atomic_gwaiting (atomic s)"
    by (simp add: v_def fields_incr)
  have 2: "fast \<longrightarrow>
                exitsyscall b s = Some (Inr (upd_g g (\<lambda>x. x\<lparr>g_status := Grunning, g_gcstack := 0\<rparr>)
                                               (s\<lparr>atomic := v\<rparr>)))"
    using e by (simp add: upd_g_def)
  have 3: "\<not> fast \<longrightarrow> exitsyscall b s = map_option Inl (gosched b sy)"
    using e by simp
  have 4: "\<not> fast \<and> m_locks (ms s m) = 0 \<and> m_g0 (ms s m) = Some g0 \<and> g0 \<noteq> g
               \<and> g_status (gs s g) = Gsyscall \<and> atomic_mcpu (atomic s) \<le> maxgomaxprocs \<longrightarrow>
                exitsyscall b s =
                  (case bind_r (gput g s3) (matchmg b) of
                     Inl e \<Rightarrow> Some (Inl e)
                   | Inr s4 \<Rightarrow> (case nextgandunlock b s4 of
                                  Inl e \<Rightarrow> Some (Inl e)
                                | Inr (gp, s5) \<Rightarrow> Some (Inl (schedule_run b gp s5))))"
  proof
    assume h: "\<not> fast \<and> m_locks (ms s m) = 0 \<and> m_g0 (ms s m) = Some g0 \<and> g0 \<noteq> g
               \<and> g_status (gs s g) = Gsyscall \<and> atomic_mcpu (atomic s) \<le> maxgomaxprocs"
    have r: "g_reg sy = g" "m_reg sy = m" "ms sy = ms s" "predawn sy = 0"
      "g_status (gs sy g) = g_status (gs s g)" "g_readyonstop (gs sy g)" "atomic sy - 1 = atomic s"
      using assms by (simp_all add: sy_def upd_g_def g_def m_def v_def)
    have "gosched b sy =
       (case bind_r (gput (g_reg sy) (yielded (g_reg sy) g0 sy)) (matchmg b) of
          Inl e \<Rightarrow> Some e
        | Inr s4 \<Rightarrow> (case nextgandunlock b s4 of
                       Inl e \<Rightarrow> Some e
                     | Inr (gp, s5) \<Rightarrow> Some (schedule_run b gp s5)))"
      using h by (intro gosched_yield) (simp_all add: r not_less)
    thus "exitsyscall b s =
                  (case bind_r (gput g s3) (matchmg b) of
                     Inl e \<Rightarrow> Some (Inl e)
                   | Inr s4 \<Rightarrow> (case nextgandunlock b s4 of
                                  Inl e \<Rightarrow> Some (Inl e)
                                | Inr (gp, s5) \<Rightarrow> Some (Inl (schedule_run b gp s5))))"
      using 3 h by (simp add: r s3_def split: sum.splits prod.splits)
  qed
  have 5: "atomic s3 = v - 1" "atomic s3 = atomic s" "g_status (gs s3 g) = Grunnable"
    "\<not> g_readyonstop (gs s3 g)" "trace s3 = trace s @ [Lock]"
    by (simp_all add: s3_def sy_def yielded_def upd_g_def v_def)
  have 6: "\<forall>xs. runq s xs \<and> g \<notin> set xs \<and> Suc (length xs) < 2147483647
                   \<and> g_lockedm (gs s g) = None \<and> g_idlem (gs s g) = None \<longrightarrow>
                (\<exists>s'. gput g s3 = Inr s' \<and> runq s' (xs @ [g])
                      \<and> atomic s' = (if xs = [] then atomic s + 2147483648 else atomic s))"
  proof (intro allI impI)
    fix xs
    assume h: "runq s xs \<and> g \<notin> set xs \<and> Suc (length xs) < 2147483647
                   \<and> g_lockedm (gs s g) = None \<and> g_idlem (gs s g) = None"
    have q: "runq s3 xs" unfolding s3_def sy_def using h by (intro runq_yielded) simp_all
    have l: "g_lockedm (gs s3 g) = None \<or> atomic_mcpumax (atomic s3) \<le> atomic_mcpu (atomic s3)"
      "g_idlem (gs s3 g) = None"
      using h by (simp_all add: s3_def sy_def yielded_def upd_g_def)
    have n: "g \<notin> set xs" "Suc (length xs) < 2147483647" using h by simp_all
    show "\<exists>s'. gput g s3 = Inr s' \<and> runq s' (xs @ [g])
                      \<and> atomic s' = (if xs = [] then atomic s + 2147483648 else atomic s)"
      using gput_fifo[OF q n(1) l n(2)] unfolding 5(2) .
  qed
  show ?thesis
    unfolding Let_def g_def[symmetric] m_def[symmetric] v_def[symmetric] fast_def[symmetric]
      sy_def[symmetric] s3_def[symmetric]
    by (rule conjI[OF 1 conjI[OF 2 conjI[OF 3 conjI[OF 4 conjI[OF 5(1) conjI[OF 5(2)
          conjI[OF 5(3) conjI[OF 5(4) conjI[OF 5(5) 6]]]]]]]]])
qed


lemma fields_small:
  "atomic_mcpu 32769 = 1" "atomic_mcpumax 32769 = 1"
  "atomic_mcpu 32770 = 2" "atomic_mcpumax 32770 = 1"
  "atomic_mcpu 2147516417 = 1" "atomic_mcpumax 2147516417 = 1"
  "atomic_waitstop 2147516417 = 0"
  by (simp_all add: atomic_mcpu_def atomic_mcpumax_def atomic_waitstop_def atomic_gwaiting_def
      shift_defs)

theorem exitsyscall_paths_witness:
  "exitsyscall build0 (exit_ex 32768)
     = Some (Inr (upd_g 1 (\<lambda>x. x\<lparr>g_status := Grunning, g_gcstack := 0\<rparr>)
                    ((exit_ex 32768)\<lparr>atomic := 32769\<rparr>)))
   \<and> atomic (yielded 1 5 (upd_g 1 (\<lambda>x. x\<lparr>g_readyonstop := True\<rparr>)
                ((exit_ex 32769)\<lparr>atomic := 32770\<rparr>))) = 32769
   \<and> (\<exists>s'. gput 1 (yielded 1 5 (upd_g 1 (\<lambda>x. x\<lparr>g_readyonstop := True\<rparr>)
                ((exit_ex 32769)\<lparr>atomic := 32770\<rparr>))) = Inr s'
          \<and> runq s' [1] \<and> atomic s' = 2147516417)
   \<and> (\<exists>s'. exitsyscall build0 (exit_ex 32769) = Some (Inl (Parked s'))
          \<and> trace s' = [Lock, Noteclear (Havenextg 0), Unlock, Notesleep (Havenextg 0)]
          \<and> ghead s' = Some 1 \<and> g_status (gs s' 1) = Grunnable \<and> atomic s' = 2147516417)"
proof -
  have h: "predawn (exit_ex a) = 0" "g_reg (exit_ex a) = 1" "m_reg (exit_ex a) = 0"
    "atomic (exit_ex a) = a" "m_profilehz (ms (exit_ex a) 0) = profilehz (exit_ex a)"
    "m_locks (ms (exit_ex a) 0) = 0" "m_g0 (ms (exit_ex a) 0) = Some 5"
    "g_status (gs (exit_ex a) 1) = Gsyscall" "runq (exit_ex a) []"
    "g_lockedm (gs (exit_ex a) 1) = None" "g_idlem (gs (exit_ex a) 1) = None" for a
    by (simp_all add: exit_ex_def zero_state_def zero_G_def zero_M_def runq_def)
  have mx: "(1::32 word) \<le> maxgomaxprocs" by (simp add: shift_defs)
  have mx2: "\<not> maxgomaxprocs \<le> (1::32 word)" by (simp add: shift_defs word_le_nat_alt)
  let ?s3 = "yielded 1 5 (upd_g 1 (\<lambda>x. x\<lparr>g_readyonstop := True\<rparr>)
                ((exit_ex 32769)\<lparr>atomic := 32770\<rparr>))"
  have a: "exitsyscall build0 (exit_ex 32768)
     = Some (Inr (upd_g 1 (\<lambda>x. x\<lparr>g_status := Grunning, g_gcstack := 0\<rparr>)
                    ((exit_ex 32768)\<lparr>atomic := 32769\<rparr>)))"
    using exitsyscall_paths[OF h(1), of 32768 5 build0]
    by (simp add: Let_def h fields_small)
  note t = exitsyscall_paths[OF h(1), of 32769 5 build0]
  have e1: "(32769 :: 32 word) + 1 = 32770" by simp
  have n21: "\<not> (2 :: 32 word) \<le> 1" by (simp add: word_le_nat_alt)
  note t' = t[unfolded Let_def h(2,3,4) e1]
  have b: "atomic ?s3 = 32769"
    using t by (simp add: Let_def h del: One_nat_def)
  have "\<forall>xs. runq (exit_ex 32769) xs \<and> 1 \<notin> set xs \<and> Suc (length xs) < 2147483647
                   \<and> g_lockedm (gs (exit_ex 32769) 1) = None
                   \<and> g_idlem (gs (exit_ex 32769) 1) = None \<longrightarrow>
                (\<exists>s'. gput 1 ?s3 = Inr s' \<and> runq s' (xs @ [1])
                      \<and> atomic s' = (if xs = [] then 32769 + 2147483648 else 32769))"
    using t' by blast
  from this[rule_format, of "[]"]
  have c: "\<exists>s'. gput 1 ?s3 = Inr s' \<and> runq s' [1] \<and> atomic s' = 2147516417"
    by (simp add: h del: One_nat_def)
  let ?R = "case bind_r (gput 1 ?s3) (matchmg build0) of
                     Inl e \<Rightarrow> Some (Inl e)
                   | Inr s4 \<Rightarrow> (case nextgandunlock build0 s4 of
                                  Inl e \<Rightarrow> Some (Inl e)
                                | Inr (gp, s5) \<Rightarrow> Some (Inl (schedule_run build0 gp s5)))"
  have eq: "exitsyscall build0 (exit_ex 32769) = ?R"
  proof -
    have "\<not> (m_profilehz (ms (exit_ex 32769) 0) = profilehz (exit_ex 32769)
              \<and> atomic_mcpu 32770 \<le> atomic_mcpumax 32770)
          \<and> m_locks (ms (exit_ex 32769) 0) = 0 \<and> m_g0 (ms (exit_ex 32769) 0) = Some 5
          \<and> (5::nat) \<noteq> 1 \<and> g_status (gs (exit_ex 32769) 1) = Gsyscall
          \<and> atomic_mcpu 32769 \<le> maxgomaxprocs"
      by (simp add: h fields_small mx n21 del: One_nat_def)
    thus ?thesis using t' by blast
  qed
  have ev: "\<exists>s'. ?R = Some (Inl (Parked s'))
          \<and> trace s' = [Lock, Noteclear (Havenextg 0), Unlock, Notesleep (Havenextg 0)]
          \<and> ghead s' = Some 1 \<and> g_status (gs s' 1) = Grunnable \<and> atomic s' = 2147516417"
    by (simp add: yielded_def exit_ex_def zero_state_def zero_G_def zero_M_def build0_def
        gput_def matchmg_def matchmg_loop.simps haveg_def canaddmcpu_eq nextgandunlock_def
        nextg_loop.simps nextg_park_def mput_def atomicload_def schedunlock_def
        bind_r_def Let_def emit_def upd_g_def upd_m_def xadd_def delta_simps fields_small mx2)
  have d: "\<exists>s'. exitsyscall build0 (exit_ex 32769) = Some (Inl (Parked s'))
          \<and> trace s' = [Lock, Noteclear (Havenextg 0), Unlock, Notesleep (Havenextg 0)]
          \<and> ghead s' = Some 1 \<and> g_status (gs s' 1) = Grunnable \<and> atomic s' = 2147516417"
    unfolding eq by (rule ev)
  show ?thesis using a b c d by blast
qed

subsection \<open>The cap after start-up\<close>

lemma cap_fields_simps:
  "cap_fields (emit e s) = cap_fields s"
  "cap_fields (upd_g g f s) = cap_fields s"
  "cap_fields (upd_m m h s) = cap_fields s"
  "cap_fields (schedlock s) = cap_fields s"
  "cap_fields (schedunlock s) = cap_fields s"
  "cap_fields (mnextg m g s) = cap_fields s"
  "cap_fields (mcommoninit m s) = cap_fields s"
  "cap_fields (mput m s) = cap_fields s"
  "cap_fields (snd (mget g s)) = cap_fields s"
  by (simp_all add: cap_fields_def emit_def upd_g_def upd_m_def schedlock_def schedunlock_def
      mnextg_def mcommoninit_def mput_def mget_def Let_def split: option.splits)

lemma cap_fields_canaddmcpu: "cap_fields (snd (canaddmcpu s)) = cap_fields s"
  by (simp add: canaddmcpu_eq cap_fields_def fields_succ not_le)

lemma cap_fields_gget: "cap_fields (snd (gget s)) = cap_fields s"
  by (simp add: gget_def cap_fields_def Let_def xadd_def upd_m_def not_mask_gwaitingShift
      fields_flip split: option.splits)

lemma stop_keeps_simps:
  "stop_keeps c (Throw msg)" "stop_keeps c (Exit n)" "stop_keeps c Fault"
  "stop_keeps c (Parked s) = (cap_fields s = c)"
  "stop_keeps c (Gogo s gb) = (cap_fields s = c)"
  "stop_keeps c (Gogocall s gb f) = (cap_fields s = c)"
  by (simp_all add: stop_keeps_def stop_state_def)

lemma keeps_simps:
  "keeps p c (Inl e) = stop_keeps c e" "keeps p c (Inr x) = (cap_fields (p x) = c)"
  by (simp_all add: keeps_def)

lemma keeps_bind:
  assumes "keeps p c r" and "\<And>x. r = Inr x \<Longrightarrow> cap_fields (p x) = c \<Longrightarrow> keeps q c (f x)"
  shows "keeps q c (bind_r r f)"
  using assms by (cases r) (simp_all add: bind_r_def keeps_simps)

lemma cap_fields_alloc:
  "cap_fields (snd (malloc_M s)) = cap_fields s"
  "cap_fields (snd (malg k s)) = cap_fields s"
  by (simp_all add: malloc_M_def malg_def cap_fields_def)

lemma cap_fields_flip: "cap_fields (s\<lparr>atomic := atomic s + 2147483648\<rparr>) = cap_fields s"
  by (simp add: cap_fields_def fields_flip)

lemma cap_fields_queue:
  "cap_fields (s\<lparr>ghead := a\<rparr>) = cap_fields s"
  "cap_fields (s\<lparr>gtail := a\<rparr>) = cap_fields s"
  "cap_fields (s\<lparr>gwait := w\<rparr>) = cap_fields s"
  "cap_fields (s\<lparr>grunning := r\<rparr>) = cap_fields s"
  "cap_fields (s\<lparr>gfree := a\<rparr>) = cap_fields s"
  "cap_fields (s\<lparr>gcount := r\<rparr>) = cap_fields s"
  "cap_fields (s\<lparr>g_reg := k\<rparr>) = cap_fields s"
  by (simp_all add: cap_fields_def)

lemma gput_keeps: "keeps (\<lambda>x. x) (cap_fields s) (gput g s)"
proof -
  have 1: "cap_fields (snd (xadd (2 ^ gwaitingShift) t)) = cap_fields t" for t
    using cap_fields_flip[of t] by (simp add: xadd_def pow_gwaitingShift)
  show ?thesis
    unfolding gput_def Let_def
    by (simp add: keeps_simps stop_keeps_simps cap_fields_simps cap_fields_canaddmcpu 1
        cap_fields_queue split: option.splits)
qed

lemma matchmg_body_keeps: "keeps (\<lambda>x. x) (cap_fields s) (matchmg_body b s)"
proof -
  obtain g s1 where g: "gget s = (g, s1)" by (cases "gget s")
  have c1: "cap_fields s1 = cap_fields s" using cap_fields_gget[of s] g by simp
  show ?thesis
  proof (cases g)
    case None
    thus ?thesis using g by (simp add: matchmg_body_def keeps_simps stop_keeps_simps)
  next
    case (Some ga)
    obtain m s2 where m: "mget ga s1 = (m, s2)" by (cases "mget ga s1")
    have c2: "cap_fields s2 = cap_fields s" using cap_fields_simps(9)[of ga s1] m c1 by simp
    show ?thesis
      using g Some m c2
      by (cases m)
        (simp_all add: matchmg_body_def Let_def case_prod_beta keeps_simps stop_keeps_simps
          cap_fields_simps cap_fields_alloc)
  qed
qed


lemma matchmg_loop_keeps: "cap_fields s = c \<Longrightarrow> keeps (\<lambda>x. x) c (matchmg_loop b s)"
proof (induction b s rule: matchmg_loop.induct)
  case (1 b s)
  show ?case
  proof (cases "haveg s \<and> fst (canaddmcpu s)")
    case False
    thus ?thesis using "1.prems"
      by (subst matchmg_loop.simps) (simp add: keeps_simps cap_fields_canaddmcpu)
  next
    case True
    have k: "keeps (\<lambda>x. x) c (matchmg_body b (snd (canaddmcpu s)))"
      using matchmg_body_keeps[of "snd (canaddmcpu s)" b] "1.prems"
      by (simp add: cap_fields_canaddmcpu)
    show ?thesis
    proof (cases "matchmg_body b (snd (canaddmcpu s))")
      case (Inl e)
      thus ?thesis using True k by (subst matchmg_loop.simps) (simp add: keeps_simps)
    next
      case (Inr s1)
      hence "cap_fields s1 = c" using k by (simp add: keeps_simps)
      hence "keeps (\<lambda>x. x) c (matchmg_loop b s1)" using True Inr by (intro "1.IH") auto
      thus ?thesis using True Inr by (subst matchmg_loop.simps) simp
    qed
  qed
qed

lemma matchmg_keeps: "cap_fields s = c \<Longrightarrow> keeps (\<lambda>x. x) c (matchmg b s)"
  by (simp add: matchmg_def matchmg_loop_keeps keeps_simps)

lemma readylocked_keeps: "cap_fields s = c \<Longrightarrow> keeps (\<lambda>x. x) c (readylocked b g s)"
proof -
  assume c: "cap_fields s = c"
  let ?s = "upd_g g (\<lambda>x. x\<lparr>g_status := Grunnable\<rparr>) s"
  have "keeps (\<lambda>x. x) c (gput g ?s)"
    using gput_keeps[of ?s g] c by (simp add: cap_fields_simps)
  hence "keeps (\<lambda>x. x) c (bind_r (gput g ?s) (\<lambda>s. if predawn s = 0 then matchmg b s else Inr s))"
    by (rule keeps_bind) (simp add: matchmg_keeps keeps_simps)
  thus ?thesis using c
    by (simp add: readylocked_def Let_def keeps_simps stop_keeps_simps cap_fields_simps)
qed

lemma nextg_loop_keeps: "cap_fields s = c \<Longrightarrow> keeps snd c (nextg_loop s)"
proof (induction s rule: nextg_loop.induct)
  case (1 s)
  obtain r s1 where g: "gget (snd (canaddmcpu s)) = (r, s1)"
    by (cases "gget (snd (canaddmcpu s))")
  have c1: "cap_fields s1 = c"
    using cap_fields_gget[of "snd (canaddmcpu s)"] g "1.prems"
    by (simp add: cap_fields_canaddmcpu)
  show ?case
  proof (cases "haveg s \<and> fst (canaddmcpu s)")
    case False
    thus ?thesis using "1.prems"
      by (subst nextg_loop.simps) (simp add: keeps_simps cap_fields_canaddmcpu)
  next
    case True
    show ?thesis
    proof (cases r)
      case None
      thus ?thesis using True g
        by (subst nextg_loop.simps) (simp add: keeps_simps stop_keeps_simps)
    next
      case (Some gp)
      show ?thesis
      proof (cases "g_lockedm (gs s1 gp)")
        case None
        thus ?thesis using True g Some c1
          by (subst nextg_loop.simps)
            (simp add: keeps_simps cap_fields_simps cap_fields_queue)
      next
        case (Some lm)
        have "keeps snd c (nextg_loop (mnextg lm gp s1))"
          using True g \<open>r = Some gp\<close> Some c1
          by (intro "1.IH") (simp_all add: cap_fields_simps)
        thus ?thesis using True g \<open>r = Some gp\<close> Some
          by (subst nextg_loop.simps) simp
      qed
    qed
  qed
qed


lemma cap_fields_clear_waitstop:
  "atomic_waitstop (atomic s) \<noteq> 0 \<Longrightarrow>
   cap_fields (snd (xadd (NOT (mask waitstopShift)) s)) = cap_fields s"
  by (simp add: xadd_def delta_simps cap_fields_def fields_clear_waitstop)

lemma atomic_frame:
  "atomic (emit e s) = atomic s" "atomic (upd_m m h s) = atomic s"
  "atomic (upd_g g f s) = atomic s"
  by (simp_all add: emit_def upd_m_def upd_g_def)

lemma nextg_park_keeps: "cap_fields s = c \<Longrightarrow> keeps p c (nextg_park s)"
  by (simp add: nextg_park_def Let_def atomicload_def keeps_simps stop_keeps_simps
      cap_fields_simps cap_fields_clear_waitstop atomic_frame)

lemma take_nextg_keeps: "cap_fields s = c \<Longrightarrow> keeps snd c (take_nextg gp s)"
  by (simp add: take_nextg_def keeps_simps cap_fields_simps)

lemma nextgandunlock_keeps: "cap_fields s = c \<Longrightarrow> keeps snd c (nextgandunlock b s)"
proof -
  assume c: "cap_fields s = c"
  have a: "keeps snd c (bind_r (matchmg b s)
                        (\<lambda>s. case m_nextg (ms s (m_reg s)) of
                                Some gp \<Rightarrow> take_nextg gp s
                              | None \<Rightarrow> nextg_park s))"
    by (rule keeps_bind[OF matchmg_keeps[OF c]])
      (simp add: take_nextg_keeps nextg_park_keeps split: option.splits)
  have b: "keeps snd c (bind_r (nextg_loop s)
                  (\<lambda>(r, s). case r of
                       Some gp \<Rightarrow> Inr (gp, s)
                     | None \<Rightarrow> nextg_park (mput (m_reg s) s)))"
    by (rule keeps_bind[OF nextg_loop_keeps[OF c]])
      (auto simp: keeps_simps nextg_park_keeps cap_fields_simps split: option.splits)
  show ?thesis
    using c a b
    by (simp add: nextgandunlock_def keeps_simps stop_keeps_simps take_nextg_keeps
        nextg_park_keeps split: option.splits)
qed

lemma restacked_cap_fields: "restacked gp s s' \<Longrightarrow> cap_fields s' = cap_fields s"
  by (auto simp: restacked_def cap_fields_def)

lemma schedule_status_keeps:
  assumes "schedule_status b gp s = Some r" and c: "cap_fields s = c"
  shows "keeps (\<lambda>x. x) c r"
proof (cases "g_status (gs s gp) = Gmoribund")
  case False
  thus ?thesis
    using assms gput_keeps[of "upd_g gp (\<lambda>x. x\<lparr>g_status := Grunnable\<rparr>) s" gp]
    by (cases "g_status (gs s gp)")
      (auto simp: schedule_status_def keeps_simps stop_keeps_simps cap_fields_simps)
next
  case True
  define s1 where "s1 = upd_g gp (\<lambda>x. x\<lparr>g_idlem := None\<rparr>)
     (let s = upd_g gp (\<lambda>x. x\<lparr>g_status := Gdead\<rparr>) s
      in if g_lockedm (gs s gp) \<noteq> None
         then upd_m (m_reg s) (\<lambda>x. x\<lparr>m_lockedg := None\<rparr>)
                (upd_g gp (\<lambda>x. x\<lparr>g_lockedm := None\<rparr>) s)
         else s)"
  have c1: "cap_fields s1 = c" using c by (simp add: s1_def Let_def cap_fields_simps)
  have e: "schedule_status b gp s =
     (case unwindstack b gp 0 s1 of
                None \<Rightarrow> None
              | Some (Inl e) \<Rightarrow> Some (Inl e)
              | Some (Inr s) \<Rightarrow>
                  (case gfput b gp s of
                     Inl e \<Rightarrow> Some (Inl e)
                   | Inr s \<Rightarrow>
                       (let s = s\<lparr>gcount := gcount s - 1\<rparr>
                        in if gcount s = 0 then Some (Inl (Exit 0)) else Some (Inr s))))"
    using True by (simp add: schedule_status_def s1_def Let_def)
  show ?thesis
  proof (cases "unwindstack b gp 0 s1")
    case None
    thus ?thesis using assms e by simp
  next
    case (Some u)
    show ?thesis
    proof (cases u)
      case (Inl x)
      hence "x = Throw ''unwindstack on self''"
        using Some by (auto simp: unwindstack_def split: if_splits option.splits)
      moreover have "r = Inl x" using assms(1) e Some Inl by simp
      ultimately show ?thesis by (simp add: keeps_simps stop_keeps_simps)
    next
      case (Inr s2)
      hence "unwindstack_loop b gp 0 s1 = Some s2"
        using Some by (auto simp: unwindstack_def split: if_splits option.splits)
      hence c2: "cap_fields s2 = c"
        using unwindstack_loop_restacked restacked_cap_fields c1 by metis
      show ?thesis
        using assms e Some Inr c2
        by (auto simp: gfput_def Let_def keeps_simps stop_keeps_simps cap_fields_simps
            cap_fields_queue split: if_splits)
    qed
  qed
qed


lemma mod_pred_nat:
  assumes "x mod 32768 = 0" and "0 < x"
  shows "(x - 1) mod 32768 = (32767::nat)"
proof -
  define q where "q = x div 32768"
  have x: "x = 32768 * q" using assms(1) by (simp add: q_def mod_eq_0_iff_dvd)
  hence "0 < q" using assms(2) by simp
  then obtain k where k: "q = Suc k" by (cases q) auto
  have "x - 1 = 32767 + 32768 * k" using x k by simp
  thus ?thesis by simp
qed

lemma mcpu_borrow: "atomic_mcpu v = 0 \<Longrightarrow> atomic_mcpu (v - 1) = 32767"
proof (cases "v = 0")
  case True
  thus ?thesis
    by (simp add: atomic_mcpu_def shift_defs mask_eq_exp_minus_1)
next
  case False
  assume "atomic_mcpu v = 0"
  hence z: "unat v mod 32768 = 0" using unat_mcpu[of v] by simp
  have p: "0 < unat v" using False by (simp add: unat_gt_0)
  have "unat (v - 1) = unat v - 1" using False by (rule unat_minus_one)
  hence "unat (atomic_mcpu (v - 1)) = 32767"
    using mod_pred_nat[OF z p] by (simp add: unat_mcpu)
  thus ?thesis by (intro word_eq_unatI) simp
qed

lemma maxgomaxprocs_less: "maxgomaxprocs < 32767"
  by (simp add: shift_defs word_less_nat_alt)

lemma cap_fields_pred:
  "\<not> maxgomaxprocs < atomic_mcpu (atomic s - 1) \<Longrightarrow>
   cap_fields (s\<lparr>atomic := atomic s - 1\<rparr>) = cap_fields s"
proof -
  assume a: "\<not> maxgomaxprocs < atomic_mcpu (atomic s - 1)"
  have "atomic_mcpu (atomic s) \<noteq> 0"
    using a mcpu_borrow[of "atomic s"] maxgomaxprocs_less by auto
  thus ?thesis by (simp add: cap_fields_def fields_pred)
qed

lemma schedule_prev_keeps:
  assumes "schedule_prev b gp s = Some r" and c: "cap_fields s = c"
  shows "keeps (\<lambda>x. x) c r"
proof (cases "predawn s \<noteq> 0 \<or> maxgomaxprocs < atomic_mcpu (atomic s - 1)")
  case True
  thus ?thesis using assms(1)
    by (auto simp: schedule_prev_def Let_def xadd_def delta_simps upd_g_def keeps_simps
        stop_keeps_simps split: if_splits)
next
  case False
  define s2 where "s2 = (upd_g gp (\<lambda>x. x\<lparr>g_m := None\<rparr>) s)
      \<lparr>grunning := grunning s - 1, atomic := atomic s - 1\<rparr>"
  have "cap_fields s2 = cap_fields ((upd_g gp (\<lambda>x. x\<lparr>g_m := None\<rparr>) s)\<lparr>grunning := grunning s - 1\<rparr>)"
    using False
      cap_fields_pred[of "(upd_g gp (\<lambda>x. x\<lparr>g_m := None\<rparr>) s)\<lparr>grunning := grunning s - 1\<rparr>"]
    by (simp add: s2_def atomic_frame upd_g_def)
  hence c2: "cap_fields s2 = c" using c by (simp add: cap_fields_queue cap_fields_simps)
  have e: "schedule_prev b gp s =
     (case schedule_status b gp s2 of
                      None \<Rightarrow> None
                    | Some (Inl e) \<Rightarrow> Some (Inl e)
                    | Some (Inr s) \<Rightarrow>
                        Some (if g_readyonstop (gs s gp)
                              then readylocked b gp (upd_g gp (\<lambda>x. x\<lparr>g_readyonstop := False\<rparr>) s)
                              else Inr s))"
    using False
    by (simp add: schedule_prev_def Let_def xadd_def delta_simps s2_def upd_g_def)
  show ?thesis
  proof (cases "schedule_status b gp s2")
    case None
    thus ?thesis using assms(1) e by simp
  next
    case (Some u)
    note k = schedule_status_keeps[OF Some c2]
    show ?thesis
    proof (cases u)
      case (Inl x)
      hence "r = Inl x" using assms(1) e Some by simp
      thus ?thesis using k Inl by (simp add: keeps_simps)
    next
      case (Inr s3)
      hence c3: "cap_fields s3 = c" using k by (simp add: keeps_simps)
      have "r = (if g_readyonstop (gs s3 gp)
                 then readylocked b gp (upd_g gp (\<lambda>x. x\<lparr>g_readyonstop := False\<rparr>) s3)
                 else Inr s3)"
        using assms(1) e Some Inr by simp
      thus ?thesis using c3
        by (simp add: keeps_simps readylocked_keeps cap_fields_simps)
    qed
  qed
qed

lemma schedule_run_keeps: "cap_fields s = c \<Longrightarrow> stop_keeps c (schedule_run b gp s)"
  by (simp add: schedule_run_def Let_def stop_keeps_simps cap_fields_simps)

lemma schedule_keeps:
  assumes "schedule b gp s = Some e" and c: "cap_fields s = c"
  shows "stop_keeps c e"
proof -
  have c0: "cap_fields (schedlock s) = c" using c by (simp add: cap_fields_simps)
  define p where "p = (case gp of None \<Rightarrow> Some (Inr (schedlock s))
                       | Some a \<Rightarrow> schedule_prev b a (schedlock s))"
  have e: "schedule b gp s =
       (case p of
           None \<Rightarrow> None
         | Some (Inl e) \<Rightarrow> Some e
         | Some (Inr s) \<Rightarrow>
             (case nextgandunlock b s of
                Inl e \<Rightarrow> Some e
              | Inr (gp, s) \<Rightarrow> Some (schedule_run b gp s)))"
    by (simp add: schedule_def Let_def p_def)
  show ?thesis
  proof (cases p)
    case None
    thus ?thesis using assms(1) e by simp
  next
    case (Some u)
    have k: "keeps (\<lambda>x. x) c u"
      using Some c0 schedule_prev_keeps[of b _ "schedlock s" u c]
      by (cases gp) (auto simp: p_def keeps_simps)
    show ?thesis
    proof (cases u)
      case (Inl x)
      thus ?thesis using assms(1) e Some k by (simp add: keeps_simps)
    next
      case (Inr s1)
      hence "cap_fields s1 = c" using k by (simp add: keeps_simps)
      hence "keeps snd c (nextgandunlock b s1)" by (rule nextgandunlock_keeps)
      thus ?thesis using assms(1) e Some Inr
        by (auto simp: keeps_simps schedule_run_keeps split: sum.splits)
    qed
  qed
qed

lemma gosched_keeps:
  assumes "gosched b s = Some e" and c: "cap_fields s = c"
  shows "stop_keeps c e"
proof (cases "m_locks (ms s (m_reg s)) \<noteq> 0 \<or> Some (g_reg s) = m_g0 (ms s (m_reg s))
              \<or> m_g0 (ms s (m_reg s)) = None")
  case True
  thus ?thesis using assms(1)
    by (auto simp: gosched_def stop_keeps_simps split: if_splits option.splits)
next
  case False
  then obtain g0 where g0: "m_g0 (ms s (m_reg s)) = Some g0" by auto
  have "schedule b (Some (g_reg s)) (s\<lparr>g_reg := g0\<rparr>) = Some e"
    using False g0 assms(1) by (simp add: gosched_def)
  thus ?thesis by (rule schedule_keeps) (simp add: cap_fields_queue c)
qed


lemma setmcpumax_cap_fields:
  "cap_fields (setmcpumax n s) = (gomaxprocs s, n AND mcpuMask)"
  by (simp add: cap_fields_def setmcpumax_fields) (simp add: setmcpumax_eq)

lemma gomaxprocsfunc_ret: "fst (gomaxprocsfunc b n s) = gomaxprocs s"
  by (simp add: gomaxprocsfunc_def Let_def schedlock_def emit_def)

lemma gomaxprocsfunc_eq:
  assumes gc: "gcwaiting s = 0"
  shows "snd (gomaxprocsfunc b n s) =
     (let k = clamp_procs (gomaxprocs s) n;
          s1 = (schedlock s)\<lparr>gomaxprocs := k\<rparr>;
          s2 = setmcpumax k (if 1 <s k then s1\<lparr>singleproc := False\<rparr> else s1)
      in if k < atomic_mcpu (atomic s)
         then (case gosched b (schedunlock s2) of None \<Rightarrow> None | Some e \<Rightarrow> Some (Inl e))
         else Some (bind_r (matchmg b s2) (\<lambda>s. Inr (schedunlock s))))"
proof -
  have "atomic_mcpu (atomic (setmcpumax k t)) = atomic_mcpu (atomic t)" for k t
    by (rule setmcpumax_fields)
  thus ?thesis
    using gc
    by (simp add: gomaxprocsfunc_def Let_def clamp_procs_def schedlock_def emit_def
        atomicload_def)
qed

lemma gomaxprocsfunc_keeps:
  assumes gc: "gcwaiting s = 0" and r: "snd (gomaxprocsfunc b n s) = Some r"
  shows "keeps (\<lambda>x. x) (clamp_procs (gomaxprocs s) n, clamp_procs (gomaxprocs s) n AND mcpuMask) r"
proof -
  define k where "k = clamp_procs (gomaxprocs s) n"
  define s1 where "s1 = (schedlock s)\<lparr>gomaxprocs := k\<rparr>"
  define s2 where "s2 = setmcpumax k (if 1 <s k then s1\<lparr>singleproc := False\<rparr> else s1)"
  have c2: "cap_fields s2 = (k, k AND mcpuMask)"
    by (simp add: s2_def setmcpumax_cap_fields s1_def)
  have e: "snd (gomaxprocsfunc b n s) =
       (if k < atomic_mcpu (atomic s)
        then (case gosched b (schedunlock s2) of None \<Rightarrow> None | Some e \<Rightarrow> Some (Inl e))
        else Some (bind_r (matchmg b s2) (\<lambda>s. Inr (schedunlock s))))"
    unfolding s2_def s1_def k_def using gomaxprocsfunc_eq[OF gc, of b n] unfolding Let_def .
  show ?thesis
  proof (cases "k < atomic_mcpu (atomic s)")
    case True
    then obtain x where g: "gosched b (schedunlock s2) = Some x" and x: "r = Inl x"
      using e r by (auto split: option.splits)
    have "stop_keeps (k, k AND mcpuMask) x"
      using g by (rule gosched_keeps) (simp add: cap_fields_simps c2)
    thus ?thesis using x by (simp add: keeps_simps k_def)
  next
    case False
    hence x: "r = bind_r (matchmg b s2) (\<lambda>s. Inr (schedunlock s))" using e r by simp
    have "keeps (\<lambda>x. x) (k, k AND mcpuMask) (bind_r (matchmg b s2) (\<lambda>s. Inr (schedunlock s)))"
      by (rule keeps_bind[OF matchmg_keeps[OF c2]]) (simp add: keeps_simps cap_fields_simps)
    thus ?thesis using x by (simp add: k_def)
  qed
qed

lemma gomaxprocsfunc_ends:
  assumes gc: "gcwaiting s = 0"
    and le: "atomic_mcpu (atomic s) \<le> clamp_procs (gomaxprocs s) n"
  shows "\<exists>r. snd (gomaxprocsfunc b n s) = Some r"
proof -
  have "\<not> clamp_procs (gomaxprocs s) n < atomic_mcpu (atomic s)"
    using le by (simp add: not_less)
  thus ?thesis unfolding gomaxprocsfunc_eq[OF gc] Let_def by simp
qed

lemma clamp_procs_le: "clamp_procs cur n \<le>s maxgomaxprocs"
  by (simp add: clamp_procs_def Let_def word_sle_eq word_sless_alt)

lemma schedinit_cap_inv:
  "gomaxprocs (schedinit p atoi s) \<le>s maxgomaxprocs"
  "atomic_mcpumax (atomic (schedinit p atoi s)) = gomaxprocs (schedinit p atoi s) AND mcpuMask"
  by (simp add: schedinit_gomaxprocs word_sle_eq word_sless_alt sint_maxgomaxprocs
      split: option.splits)
    (rule schedinit_mcpumax)

lemma gomaxprocsfunc_cap_inv:
  assumes "gcwaiting s = 0" and "snd (gomaxprocsfunc b n s) = Some (Inr s')"
  shows "gomaxprocs s' \<le>s maxgomaxprocs"
    and "atomic_mcpumax (atomic s') = gomaxprocs s' AND mcpuMask"
  using gomaxprocsfunc_keeps[OF assms] clamp_procs_le[of "gomaxprocs s" n]
  by (simp_all add: keeps_simps cap_fields_def)

lemma starttheworld_cap_inv:
  assumes "starttheworld b s = Inr s'"
  shows "gomaxprocs s' = gomaxprocs s"
    and "atomic_mcpumax (atomic s') = gomaxprocs s' AND mcpuMask"
proof -
  define s2 where "s2 = setmcpumax (gomaxprocs s) ((schedlock s)\<lparr>gcwaiting := 0\<rparr>)"
  have c2: "cap_fields s2 = (gomaxprocs s, gomaxprocs s AND mcpuMask)"
    by (simp add: s2_def setmcpumax_cap_fields schedlock_def emit_def)
  have "keeps (\<lambda>x. x) (gomaxprocs s, gomaxprocs s AND mcpuMask)
          (bind_r (matchmg b s2) (\<lambda>s. Inr (schedunlock s)))"
    by (rule keeps_bind[OF matchmg_keeps[OF c2]]) (simp add: keeps_simps cap_fields_simps)
  moreover have "starttheworld b s = bind_r (matchmg b s2) (\<lambda>s. Inr (schedunlock s))"
    by (simp add: starttheworld_def Let_def s2_def schedlock_def emit_def)
  ultimately have "keeps (\<lambda>x. x) (gomaxprocs s, gomaxprocs s AND mcpuMask) (Inr s')"
    using assms by metis
  hence "cap_fields s' = (gomaxprocs s, gomaxprocs s AND mcpuMask)"
    by (simp add: keeps_simps)
  thus "gomaxprocs s' = gomaxprocs s"
    and "atomic_mcpumax (atomic s') = gomaxprocs s' AND mcpuMask"
    by (simp_all add: cap_fields_def)
qed

text \<open>
  Claim C9. \<^verbatim>\<open>runtime\<cdot>gomaxprocsfunc\<close> with an argument \<open>n \<le> 0\<close>, no collection waiting,
  in a state where \<open>gomaxprocs\<close> is at most \<open>maxgomaxprocs\<close> and the mcpumax field holds
  \<open>gomaxprocs\<close> (as \<open>schedinit\<close>, \<open>starttheworld\<close> and \<open>gomaxprocsfunc\<close> itself leave
  them): the value returned is \<open>gomaxprocs\<close>; \<open>gomaxprocs\<close> and the mcpumax field are the
  same in the state in which the call returns, and in the state left behind where the
  call yields in \<open>gosched\<close> and the round of the scheduler ends; and when no more threads
  run than the cap allows, the call does end.
\<close>
theorem gomaxprocsfunc_query:
  assumes "n \<le>s 0" and "gcwaiting s = 0" and "gomaxprocs s \<le>s maxgomaxprocs"
    and "atomic_mcpumax (atomic s) = gomaxprocs s AND mcpuMask"
  shows "fst (gomaxprocsfunc b n s) = gomaxprocs s
     \<and> (\<forall>s'. snd (gomaxprocsfunc b n s) = Some (Inr s') \<longrightarrow>
            gomaxprocs s' = gomaxprocs s
            \<and> atomic_mcpumax (atomic s') = atomic_mcpumax (atomic s))
     \<and> (\<forall>e s'. snd (gomaxprocsfunc b n s) = Some (Inl e) \<and> stop_state e = Some s' \<longrightarrow>
            gomaxprocs s' = gomaxprocs s
            \<and> atomic_mcpumax (atomic s') = atomic_mcpumax (atomic s))
     \<and> (atomic_mcpu (atomic s) \<le> gomaxprocs s \<longrightarrow>
            (\<exists>r. snd (gomaxprocsfunc b n s) = Some r))"
proof -
  have k: "clamp_procs (gomaxprocs s) n = gomaxprocs s"
    using assms(1,3) by (simp add: clamp_procs_def Let_def word_sless_alt word_sle_eq)
  have c: "(gomaxprocs s, gomaxprocs s AND mcpuMask) = cap_fields s"
    using assms(4) by (simp add: cap_fields_def)
  note K = gomaxprocsfunc_keeps[OF assms(2), of b n, unfolded k c]
  have 1: "fst (gomaxprocsfunc b n s) = gomaxprocs s" by (rule gomaxprocsfunc_ret)
  have 2: "\<forall>s'. snd (gomaxprocsfunc b n s) = Some (Inr s') \<longrightarrow>
            gomaxprocs s' = gomaxprocs s
            \<and> atomic_mcpumax (atomic s') = atomic_mcpumax (atomic s)"
  proof (intro allI impI)
    fix s' assume "snd (gomaxprocsfunc b n s) = Some (Inr s')"
    hence "cap_fields s' = cap_fields s" using K[of "Inr s'"] by (simp add: keeps_simps)
    thus "gomaxprocs s' = gomaxprocs s
            \<and> atomic_mcpumax (atomic s') = atomic_mcpumax (atomic s)"
      by (simp add: cap_fields_def)
  qed
  have 3: "\<forall>e s'. snd (gomaxprocsfunc b n s) = Some (Inl e) \<and> stop_state e = Some s' \<longrightarrow>
            gomaxprocs s' = gomaxprocs s
            \<and> atomic_mcpumax (atomic s') = atomic_mcpumax (atomic s)"
  proof (intro allI impI)
    fix e s' assume a: "snd (gomaxprocsfunc b n s) = Some (Inl e) \<and> stop_state e = Some s'"
    hence "stop_keeps (cap_fields s) e" using K[of "Inl e"] by (simp add: keeps_simps)
    hence "cap_fields s' = cap_fields s" using a by (simp add: stop_keeps_def)
    thus "gomaxprocs s' = gomaxprocs s
            \<and> atomic_mcpumax (atomic s') = atomic_mcpumax (atomic s)"
      by (simp add: cap_fields_def)
  qed
  have 4: "atomic_mcpu (atomic s) \<le> gomaxprocs s \<longrightarrow>
            (\<exists>r. snd (gomaxprocsfunc b n s) = Some r)"
    using gomaxprocsfunc_ends[OF assms(2), of n b] by (simp add: k)
  show ?thesis by (rule conjI[OF 1 conjI[OF 2 conjI[OF 3 4]]])
qed


lemma fields_cap_ex:
  "atomic_mcpu 2147549185 = 1" "atomic_mcpumax 2147549185 = 2"
  "atomic_mcpu 65538 = 2" "atomic_mcpumax 65538 = 2"
  "(2 :: 32 word) AND mcpuMask = 2"
  by (simp_all add: atomic_mcpu_def atomic_mcpumax_def shift_defs)

theorem gomaxprocsfunc_query_witness:
  "fst (gomaxprocsfunc build0 0 cap_ex) = 2
   \<and> (\<exists>s'. snd (gomaxprocsfunc build0 0 cap_ex) = Some (Inr s')
          \<and> gomaxprocs s' = 2 \<and> atomic_mcpumax (atomic s') = 2
          \<and> atomic s' = 65538 \<and> trace s' = [Lock, Newosproc 10, Unlock])"
proof -
  have h: "(0 :: 32 word) \<le>s 0" "gcwaiting cap_ex = 0" "gomaxprocs cap_ex \<le>s maxgomaxprocs"
    "atomic_mcpumax (atomic cap_ex) = gomaxprocs cap_ex AND mcpuMask"
    by (simp_all add: cap_ex_def zero_state_def fields_cap_ex word_sle_eq sint_maxgomaxprocs)
  have v: "gomaxprocs cap_ex = 2" "atomic_mcpumax (atomic cap_ex) = 2"
    by (simp_all add: cap_ex_def zero_state_def fields_cap_ex)
  note t = gomaxprocsfunc_query[OF h, of build0, unfolded v]
  have a: "fst (gomaxprocsfunc build0 0 cap_ex) = 2" using t by blast
  have ev: "\<exists>s'. snd (gomaxprocsfunc build0 0 cap_ex) = Some (Inr s')
          \<and> atomic s' = 65538 \<and> trace s' = [Lock, Newosproc 10, Unlock]"
    by (simp add: gomaxprocsfunc_def cap_ex_def zero_state_def zero_G_def zero_M_def build0_def
        setmcpumax_eq schedlock_def schedunlock_def matchmg_def atomicload_def
        matchmg_loop.simps matchmg_body_def haveg_def canaddmcpu_eq gget_def mget_def
        malloc_M_def mcommoninit_def malg_def mnextg_def bind_r_def Let_def emit_def upd_g_def
        upd_m_def xadd_def delta_simps atomic_mcpu_def atomic_mcpumax_def atomic_waitstop_def
        atomic_gwaiting_def shift_defs not_mask_consts word_sle_eq word_sless_alt
        word_less_nat_alt word_le_nat_alt)
  then obtain s' where s: "snd (gomaxprocsfunc build0 0 cap_ex) = Some (Inr s')"
    "atomic s' = 65538" "trace s' = [Lock, Newosproc 10, Unlock]" by blast
  have "gomaxprocs s' = 2 \<and> atomic_mcpumax (atomic s') = 2" using t s(1) by blast
  thus ?thesis using a s by blast
qed

end
